theory Spec2Isabelle
  imports Complex_Main
begin

section \<open>The bilateral filter of \<^verbatim>\<open>bilateralfilter_cpu.cpp\<close>\<close>

text \<open>
  The source is one C++ file: the struct \<^verbatim>\<open>Indexer\<close> (a rank-generic coordinate
  counter) and the function \<^verbatim>\<open>BilateralFilterCpu\<close>. The embedding follows it
  statement by statement, at the level of the machine types.

  Conventions of the embedding.
  \<^item> An \<^verbatim>\<open>int\<close> is a 32-bit two's-complement number: every \<^verbatim>\<open>int\<close> operation and every
    narrowing of an \<^verbatim>\<open>int64_t\<close> to \<^verbatim>\<open>int\<close> goes through \<open>int32\<close>, which wraps. (Signed
    overflow is undefined in C++; the wrap is what the compiled code does on the usual
    targets.) An \<^verbatim>\<open>int64_t\<close> is an unbounded integer: each 64-bit result of the function
    is narrowed to \<^verbatim>\<open>int\<close> at once, and the narrowing of the wrapped and of the unwrapped
    value agree.
  \<^item> A \<^verbatim>\<open>float\<close> is an IEEE single-precision number, the type \<open>f32\<close>: a finite value,
    an infinity or NaN. Every operation computes the exact result and rounds it once, to
    nearest, ties to even, with gradual underflow and overflow to infinity (no fused
    multiply-add). Zero has no sign in the model: the two divisors of the function,
    \<^verbatim>\<open>2 * sigma * sigma\<close> and \<^verbatim>\<open>weightSum\<close>, are never the negative zero. \<^verbatim>\<open>exp\<close> is taken
    correctly rounded. A conversion of a \<^verbatim>\<open>float\<close> outside the range of \<^verbatim>\<open>int\<close> (undefined
    in C++) gives the least \<^verbatim>\<open>int\<close>, as the conversion instruction of x86-64 does.
  \<^item> Raw buffers live in a heap, a list of buffers addressed by their position. A read
    or write outside a buffer is undefined behaviour in C++; here it is the error
    \<open>OutOfBounds\<close>, so that memory safety becomes a statement about results. Memory is
    not exhausted: an allocation fails only on a bad length.
  \<^item> The exceptions the tensor library and \<^verbatim>\<open>new\<close> raise (an axis that does not exist, a
    \<^verbatim>\<open>data_ptr<float>\<close> on another element type, an array \<^verbatim>\<open>new\<close> of negative length or
    with more initialisers than elements) are error values as well.
  \<^item> A loop \<^verbatim>\<open>do { ... } while(index++)\<close> need not end once the counter can wrap, so the
    result of a loop, and of the function, is an option: \<open>None\<close> is a run that never
    returns.
\<close>

subsection \<open>Machine integers\<close>

definition int32 :: "int \<Rightarrow> int" where
  "int32 x = (x + 2147483648) mod 4294967296 - 2147483648"

subsection \<open>Single-precision numbers\<close>

datatype f32 = Fin real | PInf | NInf | NaN

definition pow2 :: "int \<Rightarrow> real" where
  "pow2 k = (if 0 \<le> k then 2 ^ nat k else 1 / 2 ^ nat (- k))"

text \<open>Rounding a real to the nearest integer, a tie to the even one.\<close>

definition round_half_even :: "real \<Rightarrow> int" where
  "round_half_even q =
     (let f = \<lfloor>q\<rfloor>; r = q - of_int f
      in if r < 1 / 2 then f else if 1 / 2 < r then f + 1 else if even f then f else f + 1)"

text \<open>
  The binary exponent of a real (not below -126, the exponent of the subnormal
  numbers), the spacing of the single-precision numbers around it (24 significant bits)
  and its rounding to that grid. \<open>round32\<close> is the rounding with overflow: the largest
  finite number is below 2 to the power 128.
\<close>

definition exponent :: "real \<Rightarrow> int" where
  "exponent x = max (- 126) \<lfloor>log 2 \<bar>x\<bar>\<rfloor>"

definition ulp :: "real \<Rightarrow> real" where
  "ulp x = pow2 (exponent x - 23)"

definition rnd :: "real \<Rightarrow> real" where
  "rnd x = (if x = 0 then 0 else of_int (round_half_even (x / ulp x)) * ulp x)"

definition round32 :: "real \<Rightarrow> f32" where
  "round32 x =
     (let y = rnd x
      in if 2 ^ 128 \<le> y then PInf else if y \<le> - (2 ^ 128) then NInf else Fin y)"

text \<open>The operations of the function on \<^verbatim>\<open>float\<close> operands.\<close>

fun fneg :: "f32 \<Rightarrow> f32" where
  "fneg (Fin a) = Fin (- a)"
| "fneg PInf = NInf"
| "fneg NInf = PInf"
| "fneg NaN = NaN"

fun fadd :: "f32 \<Rightarrow> f32 \<Rightarrow> f32" where
  "fadd (Fin a) (Fin b) = round32 (a + b)"
| "fadd NaN y = NaN"
| "fadd x NaN = NaN"
| "fadd PInf NInf = NaN"
| "fadd NInf PInf = NaN"
| "fadd PInf y = PInf"
| "fadd x PInf = PInf"
| "fadd NInf y = NInf"
| "fadd x NInf = NInf"

definition fsub :: "f32 \<Rightarrow> f32 \<Rightarrow> f32" where
  "fsub x y = fadd x (fneg y)"

fun fmul :: "f32 \<Rightarrow> f32 \<Rightarrow> f32" where
  "fmul (Fin a) (Fin b) = round32 (a * b)"
| "fmul NaN y = NaN"
| "fmul x NaN = NaN"
| "fmul (Fin a) PInf = (if a = 0 then NaN else if 0 < a then PInf else NInf)"
| "fmul (Fin a) NInf = (if a = 0 then NaN else if 0 < a then NInf else PInf)"
| "fmul PInf (Fin b) = (if b = 0 then NaN else if 0 < b then PInf else NInf)"
| "fmul NInf (Fin b) = (if b = 0 then NaN else if 0 < b then NInf else PInf)"
| "fmul PInf PInf = PInf"
| "fmul PInf NInf = NInf"
| "fmul NInf PInf = NInf"
| "fmul NInf NInf = PInf"

fun fdiv :: "f32 \<Rightarrow> f32 \<Rightarrow> f32" where
  "fdiv (Fin a) (Fin b) =
     (if b = 0 then (if a = 0 then NaN else if 0 < a then PInf else NInf)
      else round32 (a / b))"
| "fdiv NaN y = NaN"
| "fdiv x NaN = NaN"
| "fdiv (Fin a) y = Fin 0"
| "fdiv PInf (Fin b) = (if 0 \<le> b then PInf else NInf)"
| "fdiv NInf (Fin b) = (if 0 \<le> b then NInf else PInf)"
| "fdiv x y = NaN"

fun fexp :: "f32 \<Rightarrow> f32" where
  "fexp (Fin a) = round32 (exp a)"
| "fexp PInf = PInf"
| "fexp NInf = Fin 0"
| "fexp NaN = NaN"

text \<open>\<^verbatim>\<open>ceil\<close>: the ceiling of a single-precision number is one, there is no rounding.\<close>

fun fceil :: "f32 \<Rightarrow> f32" where
  "fceil (Fin a) = Fin (of_int \<lceil>a\<rceil>)"
| "fceil x = x"

text \<open>
  The implicit conversions: an \<^verbatim>\<open>int\<close> operand of a \<^verbatim>\<open>float\<close> operation is rounded to
  \<^verbatim>\<open>float\<close>; a \<^verbatim>\<open>float\<close> that initialises an \<^verbatim>\<open>int\<close> loses its fraction.
\<close>

definition of_int32 :: "int \<Rightarrow> f32" where
  "of_int32 n = round32 (of_int n)"

fun to_int32 :: "f32 \<Rightarrow> int" where
  "to_int32 (Fin a) =
     (let t = (if 0 \<le> a then \<lfloor>a\<rfloor> else \<lceil>a\<rceil>)
      in if - 2147483648 \<le> t \<and> t \<le> 2147483647 then t else - 2147483648)"
| "to_int32 x = - 2147483648"

subsection \<open>Errors, heap and tensors\<close>

datatype error = DimError | DTypeError | BadAlloc | OutOfBounds

type_synonym heap = "f32 list list"

datatype scalar_type = Float32 | Float64 | Int64

record Tensor =
  t_data :: nat
  t_dtype :: scalar_type
  t_sizes :: "int list"
  t_strides :: "int list"

text \<open>\<^verbatim>\<open>p[off]\<close> as an rvalue and as an assignment target, for a raw pointer \<open>p\<close>.\<close>

definition load :: "heap \<Rightarrow> nat \<Rightarrow> int \<Rightarrow> error + f32" where
  "load h p off =
     (if p < length h \<and> 0 \<le> off \<and> off < int (length (h ! p)) then Inr (h ! p ! nat off)
      else Inl OutOfBounds)"

definition store :: "heap \<Rightarrow> nat \<Rightarrow> int \<Rightarrow> f32 \<Rightarrow> error + heap" where
  "store h p off v =
     (if p < length h \<and> 0 \<le> off \<and> off < int (length (h ! p))
      then Inr (h[p := (h ! p)[nat off := v]])
      else Inl OutOfBounds)"

text \<open>Reading the precomputed table \<^verbatim>\<open>gaussianKernel[i]\<close>, a \<^verbatim>\<open>new float[windowSize]\<close>.\<close>

definition at_index :: "f32 list \<Rightarrow> int \<Rightarrow> error + f32" where
  "at_index xs i = (if 0 \<le> i \<and> i < int (length xs) then Inr (xs ! nat i) else Inl OutOfBounds)"

text \<open>
  \<^verbatim>\<open>torch::zeros_like(input)\<close>: a fresh buffer of zeros, one cell per element, behind a
  tensor of the sizes and element type of \<open>input\<close>. The library gives the result the
  strides of the input when the input is non-overlapping and dense: its axes of two or
  more elements, ordered by stride, start at stride 1 and each stride is the previous one
  times the previous size. For another input the library picks dense strides of its own;
  the model takes the row-major ones there. The function never reads the strides of the
  output: it addresses the output with the strides of the input.
\<close>

fun dense_chain :: "int \<Rightarrow> (int \<times> int) list \<Rightarrow> bool" where
  "dense_chain require_stride [] = True"
| "dense_chain require_stride ((n, s) # rest) =
     (s = require_stride \<and> dense_chain (require_stride * n) rest)"

definition is_non_overlapping_and_dense :: "Tensor \<Rightarrow> bool" where
  "is_non_overlapping_and_dense t =
     dense_chain 1 (sort_key snd (filter (\<lambda>(n, s). 2 \<le> n) (zip (t_sizes t) (t_strides t))))"

fun contiguous_strides :: "int list \<Rightarrow> int list" where
  "contiguous_strides [] = []"
| "contiguous_strides (n # ns) = prod_list (map (max 1) ns) # contiguous_strides ns"

definition numel :: "Tensor \<Rightarrow> int" where
  "numel t = prod_list (t_sizes t)"

definition zeros_like :: "heap \<Rightarrow> Tensor \<Rightarrow> heap \<times> Tensor" where
  "zeros_like h input =
     (h @ [replicate (nat (numel input)) (Fin 0)],
      input\<lparr>t_data := length h,
            t_strides := (if is_non_overlapping_and_dense input then t_strides input
                          else contiguous_strides (t_sizes input))\<rparr>)"

subsection \<open>The struct \<^verbatim>\<open>Indexer\<close>\<close>

text \<open>
  The constructor stores its arguments and \<^verbatim>\<open>m_index = new int[dimensions]{0}\<close>, a list
  of \<open>dimensions\<close> zeros: \<open>Indexer_new\<close> is the object it leaves. For \<open>dimensions = 0\<close>
  the array has no room for the initialiser and \<^verbatim>\<open>new\<close> throws: \<open>Indexer_ctor\<close> is the
  constructor call with that failure.

  \<^verbatim>\<open>operator++\<close> walks the two arrays from axis 0: \<open>operator_inc_loop n sizes index\<close> is the
  \<^verbatim>\<open>for\<close> loop with \<open>n\<close> axes still to visit and the two arrays from the current axis
  on. The entries of \<^verbatim>\<open>m_index\<close> are \<^verbatim>\<open>int\<close>, so the increment wraps; the sizes are
  \<^verbatim>\<open>int64_t\<close> and the comparison is made there. Where an array is shorter than
  \<^verbatim>\<open>m_dimensions\<close> the C++ reads past its end; the model stops there and answers \<open>False\<close>.
\<close>

record Indexer =
  m_dimensions :: nat
  m_sizes :: "int list"
  m_index :: "int list"

definition Indexer_new :: "nat \<Rightarrow> int list \<Rightarrow> Indexer" where
  "Indexer_new dimensions sizes =
     \<lparr>m_dimensions = dimensions, m_sizes = sizes, m_index = replicate dimensions 0\<rparr>"

definition Indexer_ctor :: "nat \<Rightarrow> int list \<Rightarrow> error + Indexer" where
  "Indexer_ctor dimensions sizes =
     (if dimensions = 0 then Inl BadAlloc else Inr (Indexer_new dimensions sizes))"

fun operator_inc_loop :: "nat \<Rightarrow> int list \<Rightarrow> int list \<Rightarrow> bool \<times> int list" where
  "operator_inc_loop (Suc n) (s # sizes) (x # index) =
     (if int32 (x + 1) < s then (True, int32 (x + 1) # index)
      else (case operator_inc_loop n sizes index of (r, index') \<Rightarrow> (r, 0 # index')))"
| "operator_inc_loop n sizes index = (False, index)"

definition operator_inc :: "Indexer \<Rightarrow> bool \<times> Indexer" where
  "operator_inc ix =
     (case operator_inc_loop (m_dimensions ix) (m_sizes ix) (m_index ix) of
        (r, index') \<Rightarrow> (r, ix\<lparr>m_index := index'\<rparr>))"

text \<open>
  The loops \<^verbatim>\<open>do { ... } while(index++)\<close>: the body runs at the current coordinate, then
  the increment decides whether it runs again. The body may fail, and it may not return
  (it can contain such a loop itself).
\<close>

partial_function (option) do_while ::
    "(int list \<Rightarrow> 's \<Rightarrow> (error + 's) option) \<Rightarrow> Indexer \<Rightarrow> 's \<Rightarrow> (error + 's) option" where
  "do_while body ix s =
     (case body (m_index ix) s of
        None \<Rightarrow> None
      | Some (Inl e) \<Rightarrow> Some (Inl e)
      | Some (Inr s') \<Rightarrow>
          (if fst (operator_inc ix) then do_while body (snd (operator_inc ix)) s'
           else Some (Inr s')))"

text \<open>
  A \<^verbatim>\<open>for\<close> loop over a list of loop indices: \<open>for_each\<close> when the body may fail,
  \<open>for_each_opt\<close> when it may also not return.
\<close>

primrec for_each :: "'i list \<Rightarrow> ('i \<Rightarrow> 's \<Rightarrow> error + 's) \<Rightarrow> 's \<Rightarrow> error + 's" where
  "for_each [] f s = Inr s"
| "for_each (i # is) f s = (case f i s of Inl e \<Rightarrow> Inl e | Inr s' \<Rightarrow> for_each is f s')"

primrec for_each_opt ::
    "'i list \<Rightarrow> ('i \<Rightarrow> 's \<Rightarrow> (error + 's) option) \<Rightarrow> 's \<Rightarrow> (error + 's) option" where
  "for_each_opt [] f s = Some (Inr s)"
| "for_each_opt (i # is) f s =
     (case f i s of
        None \<Rightarrow> None
      | Some (Inl e) \<Rightarrow> Some (Inl e)
      | Some (Inr s') \<Rightarrow> for_each_opt is f s')"

text \<open>The body that records the coordinates a loop visits, in order.\<close>

definition visit :: "int list \<Rightarrow> int list list \<Rightarrow> (error + int list list) option" where
  "visit index acc = Some (Inr (acc @ [index]))"

text \<open>
  The \<open>k\<close>-th coordinate in mixed-radix order for the radices \<open>ms\<close>, axis 0 the least
  significant digit, and the radices an array of sizes gives the counter: an axis of
  size below 1 is walked like an axis of size 1.
\<close>

fun mixed_radix :: "nat list \<Rightarrow> nat \<Rightarrow> int list" where
  "mixed_radix [] k = []"
| "mixed_radix (m # ms) k = int (k mod m) # mixed_radix ms (k div m)"

definition radices :: "int list \<Rightarrow> nat list" where
  "radices sizes = map (\<lambda>s. nat (max 1 s)) sizes"

subsection \<open>The locals of \<^verbatim>\<open>BilateralFilterCpu\<close>\<close>

text \<open>
  The tensor descriptors. Axis 0 is the batch, axis 1 the channel, the others are
  spatial. The four scalars are \<^verbatim>\<open>int\<close> variables initialised from \<^verbatim>\<open>int64_t\<close> values;
  the spatial sizes and strides are read through \<^verbatim>\<open>int64_t\<close> pointers.
\<close>

definition batchCount :: "Tensor \<Rightarrow> int" where
  "batchCount input = int32 (t_sizes input ! 0)"

definition channelCount :: "Tensor \<Rightarrow> int" where
  "channelCount input = int32 (t_sizes input ! 1)"

definition batchStride :: "Tensor \<Rightarrow> int" where
  "batchStride input = int32 (t_strides input ! 0)"

definition channelStride :: "Tensor \<Rightarrow> int" where
  "channelStride input = int32 (t_strides input ! 1)"

definition spatialDimensionCount :: "Tensor \<Rightarrow> nat" where
  "spatialDimensionCount input = length (t_sizes input) - 2"

definition spatialDimensionSizes :: "Tensor \<Rightarrow> int list" where
  "spatialDimensionSizes input = drop 2 (t_sizes input)"

definition spatialDimensionStrides :: "Tensor \<Rightarrow> int list" where
  "spatialDimensionStrides input = drop 2 (t_strides input)"

text \<open>
  \<^verbatim>\<open>int windowSize = ceil(3 * spatialSigma);\<close>
  \<^verbatim>\<open>int halfWindowSize = 0.5f * windowSize;\<close>
  \<^verbatim>\<open>float spatialExpConstant = -1.0f / (2 * spatialSigma * spatialSigma);\<close>
  \<^verbatim>\<open>float colorExpConstant = -1.0f / (2 * colorSigma * colorSigma);\<close>
\<close>

definition windowSize :: "f32 \<Rightarrow> int" where
  "windowSize spatialSigma = to_int32 (fceil (fmul (of_int32 3) spatialSigma))"

definition halfWindowSize :: "f32 \<Rightarrow> int" where
  "halfWindowSize spatialSigma =
     to_int32 (fmul (Fin (1 / 2)) (of_int32 (windowSize spatialSigma)))"

definition spatialExpConstant :: "f32 \<Rightarrow> f32" where
  "spatialExpConstant spatialSigma =
     fdiv (Fin (- 1)) (fmul (fmul (of_int32 2) spatialSigma) spatialSigma)"

definition colorExpConstant :: "f32 \<Rightarrow> f32" where
  "colorExpConstant colorSigma =
     fdiv (Fin (- 1)) (fmul (fmul (of_int32 2) colorSigma) colorSigma)"

definition kernelSize :: "Tensor \<Rightarrow> f32 \<Rightarrow> int list" where
  "kernelSize input spatialSigma =
     replicate (spatialDimensionCount input) (windowSize spatialSigma)"

text \<open>
  The table: for \<open>i\<close> from 0 below \<open>windowSize\<close>,
  \<^verbatim>\<open>int distance = i - halfWindowSize; gaussianKernel[i] = exp(distance * spatialExpConstant);\<close>
\<close>

definition gaussianKernel :: "f32 \<Rightarrow> f32 list" where
  "gaussianKernel spatialSigma =
     map (\<lambda>i. let distance = int32 (int i - halfWindowSize spatialSigma)
              in fexp (fmul (of_int32 distance) (spatialExpConstant spatialSigma)))
       [0..<nat (windowSize spatialSigma)]"

subsection \<open>The body of the window loop\<close>

text \<open>
  The offsets are \<^verbatim>\<open>int\<close> variables: \<^verbatim>\<open>offset += index[i] * strides[i]\<close> multiplies and adds
  in 64 bits and narrows the sum. \<open>subscript\<close> is the \<^verbatim>\<open>int\<close> expression
  \<^verbatim>\<open>offset + i * channelStride\<close> of the four array accesses.
\<close>

definition homeOffset :: "Tensor \<Rightarrow> int \<Rightarrow> int list \<Rightarrow> int" where
  "homeOffset input batchOffset homeIndex =
     foldl (\<lambda>off i. int32 (off + homeIndex ! i * spatialDimensionStrides input ! i))
       batchOffset [0..<spatialDimensionCount input]"

definition neighbourIndex :: "f32 \<Rightarrow> int list \<Rightarrow> int list \<Rightarrow> nat \<Rightarrow> int" where
  "neighbourIndex spatialSigma homeIndex kernelIndex i =
     int32 (int32 (homeIndex ! i + kernelIndex ! i) - halfWindowSize spatialSigma)"

definition neighbourIndexClamped ::
    "Tensor \<Rightarrow> f32 \<Rightarrow> int list \<Rightarrow> int list \<Rightarrow> nat \<Rightarrow> int" where
  "neighbourIndexClamped input spatialSigma homeIndex kernelIndex i =
     min (int32 (int32 (spatialDimensionSizes input ! i) - 1))
       (max 0 (neighbourIndex spatialSigma homeIndex kernelIndex i))"

definition neighbourOffset :: "Tensor \<Rightarrow> f32 \<Rightarrow> int \<Rightarrow> int list \<Rightarrow> int list \<Rightarrow> int" where
  "neighbourOffset input spatialSigma batchOffset homeIndex kernelIndex =
     foldl (\<lambda>off i. int32 (off + neighbourIndexClamped input spatialSigma homeIndex kernelIndex i
                                    * spatialDimensionStrides input ! i))
       batchOffset [0..<spatialDimensionCount input]"

definition subscript :: "Tensor \<Rightarrow> int \<Rightarrow> nat \<Rightarrow> int" where
  "subscript input off i = int32 (off + int32 (int i * channelStride input))"

definition colorDistanceSquared :: "heap \<Rightarrow> Tensor \<Rightarrow> int \<Rightarrow> int \<Rightarrow> error + f32" where
  "colorDistanceSquared h input homeOff neighbourOff =
     for_each [0..<nat (channelCount input)]
       (\<lambda>i acc.
          case load h (t_data input) (subscript input homeOff i) of
            Inl e \<Rightarrow> Inl e
          | Inr a \<Rightarrow>
              (case load h (t_data input) (subscript input neighbourOff i) of
                 Inl e \<Rightarrow> Inl e
               | Inr b \<Rightarrow> let diff = fsub a b in Inr (fadd acc (fmul diff diff))))
       (Fin 0)"

definition spatialWeight :: "Tensor \<Rightarrow> f32 \<Rightarrow> int list \<Rightarrow> error + f32" where
  "spatialWeight input spatialSigma kernelIndex =
     for_each [0..<spatialDimensionCount input]
       (\<lambda>i w.
          case at_index (gaussianKernel spatialSigma) (kernelIndex ! i) of
            Inl e \<Rightarrow> Inl e
          | Inr g \<Rightarrow> Inr (fmul w g))
       (Fin 1)"

definition totalWeight ::
    "heap \<Rightarrow> Tensor \<Rightarrow> f32 \<Rightarrow> f32 \<Rightarrow> int \<Rightarrow> int \<Rightarrow> int list \<Rightarrow> error + f32" where
  "totalWeight h input spatialSigma colorSigma homeOff neighbourOff kernelIndex =
     (case colorDistanceSquared h input homeOff neighbourOff of
        Inl e \<Rightarrow> Inl e
      | Inr cds \<Rightarrow>
          (case spatialWeight input spatialSigma kernelIndex of
             Inl e \<Rightarrow> Inl e
           | Inr sw \<Rightarrow>
               let colorWeight = fexp (fmul cds (colorExpConstant colorSigma))
               in Inr (fmul sw colorWeight)))"

definition aggregate :: "heap \<Rightarrow> Tensor \<Rightarrow> int \<Rightarrow> f32 \<Rightarrow> f32 list \<Rightarrow> error + f32 list" where
  "aggregate h input neighbourOff tw valueSum =
     for_each [0..<nat (channelCount input)]
       (\<lambda>i vs.
          case load h (t_data input) (subscript input neighbourOff i) of
            Inl e \<Rightarrow> Inl e
          | Inr v \<Rightarrow> Inr (vs[i := fadd (vs ! i) (fmul v tw)]))
       valueSum"

definition kernel_body ::
    "heap \<Rightarrow> Tensor \<Rightarrow> f32 \<Rightarrow> f32 \<Rightarrow> int \<Rightarrow> int list \<Rightarrow> int list \<Rightarrow> f32 list \<times> f32
     \<Rightarrow> error + f32 list \<times> f32" where
  "kernel_body h input spatialSigma colorSigma batchOffset homeIndex kernelIndex acc =
     (let homeOff = homeOffset input batchOffset homeIndex;
          neighbourOff = neighbourOffset input spatialSigma batchOffset homeIndex kernelIndex
      in case totalWeight h input spatialSigma colorSigma homeOff neighbourOff kernelIndex of
           Inl e \<Rightarrow> Inl e
         | Inr tw \<Rightarrow>
             (case aggregate h input neighbourOff tw (fst acc) of
                Inl e \<Rightarrow> Inl e
              | Inr valueSum \<Rightarrow> Inr (valueSum, fadd (snd acc) tw)))"

subsection \<open>The loops over the window, the home elements and the batches\<close>

text \<open>
  The window loop starts from \<open>valueSum\<close> all zero and \<open>weightSum = 0\<close> and returns the
  two aggregates. Its counter is constructed first, over \<^verbatim>\<open>kernelSize\<close>.
\<close>

definition window_pass ::
    "heap \<Rightarrow> Tensor \<Rightarrow> f32 \<Rightarrow> f32 \<Rightarrow> int \<Rightarrow> int list \<Rightarrow> (error + f32 list \<times> f32) option" where
  "window_pass h input spatialSigma colorSigma batchOffset homeIndex =
     (case Indexer_ctor (spatialDimensionCount input) (kernelSize input spatialSigma) of
        Inl e \<Rightarrow> Some (Inl e)
      | Inr kernelIndex \<Rightarrow>
          do_while
            (\<lambda>index acc.
               Some (kernel_body h input spatialSigma colorSigma batchOffset homeIndex index acc))
            kernelIndex
            (replicate (nat (channelCount input)) (Fin 0), Fin 0))"

definition write_output ::
    "Tensor \<Rightarrow> nat \<Rightarrow> int \<Rightarrow> f32 list \<Rightarrow> f32 \<Rightarrow> heap \<Rightarrow> error + heap" where
  "write_output input outputData homeOff valueSum weightSum h =
     for_each [0..<nat (channelCount input)]
       (\<lambda>i h'. store h' outputData (subscript input homeOff i) (fdiv (valueSum ! i) weightSum))
       h"

definition home_body ::
    "Tensor \<Rightarrow> nat \<Rightarrow> f32 \<Rightarrow> f32 \<Rightarrow> int \<Rightarrow> int list \<Rightarrow> heap \<Rightarrow> (error + heap) option" where
  "home_body input outputData spatialSigma colorSigma batchOffset homeIndex h =
     (case window_pass h input spatialSigma colorSigma batchOffset homeIndex of
        None \<Rightarrow> None
      | Some (Inl e) \<Rightarrow> Some (Inl e)
      | Some (Inr (valueSum, weightSum)) \<Rightarrow>
          Some (write_output input outputData (homeOffset input batchOffset homeIndex)
                  valueSum weightSum h))"

definition batch_body ::
    "Tensor \<Rightarrow> nat \<Rightarrow> f32 \<Rightarrow> f32 \<Rightarrow> nat \<Rightarrow> heap \<Rightarrow> (error + heap) option" where
  "batch_body input outputData spatialSigma colorSigma b h =
     (let batchOffset = int32 (int b * batchStride input)
      in case Indexer_ctor (spatialDimensionCount input) (spatialDimensionSizes input) of
           Inl e \<Rightarrow> Some (Inl e)
         | Inr homeIndex \<Rightarrow>
             do_while (home_body input outputData spatialSigma colorSigma batchOffset)
               homeIndex h)"

text \<open>
  The function. \<^verbatim>\<open>input.size(1)\<close> and \<^verbatim>\<open>input.stride(1)\<close> raise on a tensor of fewer than
  two axes, \<^verbatim>\<open>data_ptr<float>()\<close> raises on another element type, and
  \<^verbatim>\<open>new float[windowSize]\<close> and \<^verbatim>\<open>new float[channelCount]\<close> raise on a negative length.
  The result is the heap after the call and the output tensor.
\<close>

definition BilateralFilterCpu ::
    "heap \<Rightarrow> Tensor \<Rightarrow> f32 \<Rightarrow> f32 \<Rightarrow> (error + heap \<times> Tensor) option" where
  "BilateralFilterCpu h input spatialSigma colorSigma =
     (case zeros_like h input of
        (h1, output) \<Rightarrow>
          if length (t_sizes input) < 2 \<or> length (t_strides input) < 2 then Some (Inl DimError)
          else if t_dtype input \<noteq> Float32 then Some (Inl DTypeError)
          else if windowSize spatialSigma < 0 then Some (Inl BadAlloc)
          else if channelCount input < 0 then Some (Inl BadAlloc)
          else
            (case for_each_opt [0..<nat (batchCount input)]
                    (batch_body input (t_data output) spatialSigma colorSigma) h1 of
               None \<Rightarrow> None
             | Some (Inl e) \<Rightarrow> Some (Inl e)
             | Some (Inr h2) \<Rightarrow> Some (Inr (h2, output))))"

subsection \<open>Valid inputs\<close>

text \<open>
  A valid input: its buffer is in the heap, it has one size and one stride per axis, a
  batch axis, a channel axis and at least one spatial axis, every axis holds at least
  one element, its elements are single precision, and its strides keep every element
  inside the buffer: they are not negative and the element of the largest coordinates,
  at offset \<open>max_offset\<close>, is inside.
\<close>

definition max_offset :: "Tensor \<Rightarrow> int" where
  "max_offset input = sum_list (map2 (\<lambda>n s. (n - 1) * s) (t_sizes input) (t_strides input))"

definition tensor_ok :: "heap \<Rightarrow> Tensor \<Rightarrow> bool" where
  "tensor_ok h input \<longleftrightarrow>
     t_data input < length h \<and>
     length (t_strides input) = length (t_sizes input) \<and>
     3 \<le> length (t_sizes input) \<and>
     (\<forall>n \<in> set (t_sizes input). 1 \<le> n) \<and>
     (\<forall>s \<in> set (t_strides input). 0 \<le> s) \<and>
     t_dtype input = Float32 \<and>
     max_offset input < int (length (h ! t_data input))"

text \<open>
  The input fits the \<^verbatim>\<open>int\<close> variables of the function: every size, every stride and
  the largest offset are at most the greatest \<^verbatim>\<open>int\<close>.
\<close>

definition int_ranged :: "Tensor \<Rightarrow> bool" where
  "int_ranged input \<longleftrightarrow>
     (\<forall>n \<in> set (t_sizes input). n \<le> 2147483647) \<and>
     (\<forall>s \<in> set (t_strides input). s \<le> 2147483647) \<and>
     max_offset input \<le> 2147483647"

text \<open>
  The window fits: it has at least one element, and a home coordinate plus a window
  coordinate is an \<^verbatim>\<open>int\<close> on every spatial axis.
\<close>

definition window_fits :: "Tensor \<Rightarrow> f32 \<Rightarrow> bool" where
  "window_fits input spatialSigma \<longleftrightarrow>
     1 \<le> windowSize spatialSigma \<and>
     (\<forall>n \<in> set (spatialDimensionSizes input). n + windowSize spatialSigma \<le> 2147483648)"

text \<open>The offset of the element of a tensor at batch \<open>b\<close>, channel \<open>c\<close> and spatial coordinate \<open>index\<close>.\<close>

definition element_offset :: "Tensor \<Rightarrow> nat \<Rightarrow> nat \<Rightarrow> int list \<Rightarrow> int" where
  "element_offset input b c index =
     int b * (t_strides input ! 0) + int c * (t_strides input ! 1)
       + sum_list (map2 (*) index (spatialDimensionStrides input))"

text \<open>A coordinate is inside a box of sizes: one entry per axis, each from 0 below the size.\<close>

definition in_box :: "int list \<Rightarrow> int list \<Rightarrow> bool" where
  "in_box sizes index \<longleftrightarrow> list_all2 (\<lambda>x n. 0 \<le> x \<and> x < n) index sizes"

text \<open>The number a coordinate stands for in mixed-radix notation, axis 0 least significant.\<close>

fun mixed_radix_value :: "nat list \<Rightarrow> int list \<Rightarrow> nat" where
  "mixed_radix_value (m # ms) (x # xs) = nat x + m * mixed_radix_value ms xs"
| "mixed_radix_value ms xs = 0"

text \<open>
  The window coordinates and the home coordinates in the order their loops visit them.
\<close>

definition window :: "Tensor \<Rightarrow> f32 \<Rightarrow> int list list" where
  "window input spatialSigma =
     map (mixed_radix (radices (kernelSize input spatialSigma)))
       [0..<prod_list (radices (kernelSize input spatialSigma))]"

definition home_coordinates :: "Tensor \<Rightarrow> int list list" where
  "home_coordinates input =
     map (mixed_radix (radices (spatialDimensionSizes input)))
       [0..<prod_list (radices (spatialDimensionSizes input))]"

text \<open>
  The values the body of the window loop reads, per channel: the element of the home
  coordinate and the element of the clamped neighbour.
\<close>

definition home_value :: "heap \<Rightarrow> Tensor \<Rightarrow> nat \<Rightarrow> int list \<Rightarrow> nat \<Rightarrow> f32" where
  "home_value h input b homeIndex c =
     h ! t_data input !
       nat (subscript input (homeOffset input (int32 (int b * batchStride input)) homeIndex) c)"

definition neighbour_value ::
    "heap \<Rightarrow> Tensor \<Rightarrow> f32 \<Rightarrow> nat \<Rightarrow> int list \<Rightarrow> int list \<Rightarrow> nat \<Rightarrow> f32" where
  "neighbour_value h input spatialSigma b homeIndex kernelIndex c =
     h ! t_data input !
       nat (subscript input
              (neighbourOffset input spatialSigma (int32 (int b * batchStride input))
                 homeIndex kernelIndex) c)"

text \<open>
  The weight the body of the window loop gives a window coordinate, with the operations
  in the order of the code: the table entries of its axes multiplied up from 1, times
  the exponential of the squared colour distance (summed up from 0 over the channels)
  scaled by \<open>colorExpConstant\<close>.
\<close>

definition weight ::
    "heap \<Rightarrow> Tensor \<Rightarrow> f32 \<Rightarrow> f32 \<Rightarrow> nat \<Rightarrow> int list \<Rightarrow> int list \<Rightarrow> f32" where
  "weight h input spatialSigma colorSigma b homeIndex kernelIndex =
     fmul
       (foldl (\<lambda>w i. fmul w (gaussianKernel spatialSigma ! nat (kernelIndex ! i))) (Fin 1)
          [0..<spatialDimensionCount input])
       (fexp (fmul
          (foldl (\<lambda>acc c.
                    fadd acc
                      (fmul (fsub (home_value h input b homeIndex c)
                                  (neighbour_value h input spatialSigma b homeIndex kernelIndex c))
                            (fsub (home_value h input b homeIndex c)
                                  (neighbour_value h input spatialSigma b homeIndex kernelIndex c))))
             (Fin 0) [0..<nat (channelCount input)])
          (colorExpConstant colorSigma)))"

text \<open>
  One turn of the window loop on the two aggregates, and the aggregates after the loop:
  the turns in the order of the window coordinates, from \<open>valueSum\<close> all zero and
  \<open>weightSum = 0\<close>.
\<close>

definition window_step ::
    "heap \<Rightarrow> Tensor \<Rightarrow> f32 \<Rightarrow> f32 \<Rightarrow> nat \<Rightarrow> int list \<Rightarrow> f32 list \<times> f32 \<Rightarrow> int list
     \<Rightarrow> f32 list \<times> f32" where
  "window_step h input spatialSigma colorSigma b homeIndex acc kernelIndex =
     (map (\<lambda>c. fadd (fst acc ! c)
                  (fmul (neighbour_value h input spatialSigma b homeIndex kernelIndex c)
                        (weight h input spatialSigma colorSigma b homeIndex kernelIndex)))
        [0..<nat (channelCount input)],
      fadd (snd acc) (weight h input spatialSigma colorSigma b homeIndex kernelIndex))"

definition window_sums ::
    "heap \<Rightarrow> Tensor \<Rightarrow> f32 \<Rightarrow> f32 \<Rightarrow> nat \<Rightarrow> int list \<Rightarrow> f32 list \<times> f32" where
  "window_sums h input spatialSigma colorSigma b homeIndex =
     foldl (window_step h input spatialSigma colorSigma b homeIndex)
       (replicate (nat (channelCount input)) (Fin 0), Fin 0)
       (window input spatialSigma)"

text \<open>
  The heaps the loops of a call pass through: the heap \<open>h0\<close> of the call followed by one
  output buffer of \<open>n\<close> cells.
\<close>

definition output_heap :: "heap \<Rightarrow> nat \<Rightarrow> heap \<Rightarrow> bool" where
  "output_heap h0 n h \<longleftrightarrow>
     length h = Suc (length h0) \<and> take (length h0) h = h0 \<and> length (h ! length h0) = n"

text \<open>Cell \<open>off\<close> of the output buffer holds what cell \<open>off\<close> of buffer \<open>p\<close> held at the call.\<close>

definition agrees :: "heap \<Rightarrow> nat \<Rightarrow> heap \<Rightarrow> nat \<Rightarrow> bool" where
  "agrees h0 p h off \<longleftrightarrow> h ! length h0 ! off = h0 ! p ! off"

text \<open>
  The values a weight can take: NaN, or a number that is not negative (the positive
  infinity included); and the values a sum of weights that includes a weight 1 can take.
\<close>

fun weight_like :: "f32 \<Rightarrow> bool" where
  "weight_like (Fin a) = (0 \<le> a)"
| "weight_like PInf = True"
| "weight_like NInf = False"
| "weight_like NaN = True"

fun at_least_one :: "f32 \<Rightarrow> bool" where
  "at_least_one (Fin a) = (1 \<le> a)"
| "at_least_one PInf = True"
| "at_least_one NInf = False"
| "at_least_one NaN = True"

text \<open>A single-precision number: a real that rounding leaves alone, below the overflow.\<close>

definition is_f32 :: "real \<Rightarrow> bool" where
  "is_f32 x \<longleftrightarrow> rnd x = x \<and> \<bar>x\<bar> < 2 ^ 128"

text \<open>Every cell of the buffer of a tensor holds a finite single-precision number.\<close>

definition finite_cells :: "heap \<Rightarrow> Tensor \<Rightarrow> bool" where
  "finite_cells h input \<longleftrightarrow> (\<forall>x \<in> set (h ! t_data input). \<exists>a. x = Fin a \<and> is_f32 a)"

subsection \<open>Example inputs\<close>

text \<open>
  A small input for the examples: one batch, one channel and one spatial axis of five
  elements \<open>0, 0, 0, 10, 10\<close>, stored contiguously in the only buffer of the heap.
\<close>

definition example_heap :: heap where
  "example_heap = [[Fin 0, Fin 0, Fin 0, Fin 10, Fin 10]]"

definition example_input :: Tensor where
  "example_input = \<lparr>t_data = 0, t_dtype = Float32, t_sizes = [1, 1, 5], t_strides = [5, 5, 1]\<rparr>"

text \<open>A step edge: one batch, one channel and one spatial axis holding \<open>0, 30\<close>.\<close>

definition edge_heap :: heap where
  "edge_heap = [[Fin 0, Fin 30]]"

definition edge_input :: Tensor where
  "edge_input = \<lparr>t_data = 0, t_dtype = Float32, t_sizes = [1, 1, 2], t_strides = [2, 2, 1]\<rparr>"

text \<open>
  One batch, two channels holding 3 and 7, and one spatial axis of a single element.
\<close>

definition single_pixel_heap :: heap where
  "single_pixel_heap = [[Fin 3, Fin 7]]"

definition single_pixel_input :: Tensor where
  "single_pixel_input =
     \<lparr>t_data = 0, t_dtype = Float32, t_sizes = [1, 2, 1], t_strides = [2, 1, 1]\<rparr>"

text \<open>
  One batch, one channel and two spatial axes of sizes 3 and 0. It has no element and
  its buffer is empty.
\<close>

definition empty_axis_heap :: heap where
  "empty_axis_heap = [[]]"

definition empty_axis_input :: Tensor where
  "empty_axis_input =
     \<lparr>t_data = 0, t_dtype = Float32, t_sizes = [1, 1, 3, 0], t_strides = [0, 0, 1, 3]\<rparr>"

text \<open>
  A large input: one batch, one channel and two spatial axes of 2 and 2147483648
  elements, all zero, stored contiguously (row-major) in a buffer of 4294967296 cells.
\<close>

definition wide_heap :: heap where
  "wide_heap = [replicate 4294967296 (Fin 0)]"

definition wide_input :: Tensor where
  "wide_input =
     \<lparr>t_data = 0, t_dtype = Float32, t_sizes = [1, 1, 2, 2147483648],
      t_strides = [4294967296, 4294967296, 2147483648, 1]\<rparr>"

section \<open>Properties\<close>

subsection \<open>Rounding\<close>

lemma int32_id: "- 2147483648 \<le> x \<Longrightarrow> x \<le> 2147483647 \<Longrightarrow> int32 x = x"
  by (simp add: int32_def)

lemma int32_range: "- 2147483648 \<le> int32 x \<and> int32 x \<le> 2147483647"
  unfolding int32_def
  using pos_mod_bound[of 4294967296 "x + 2147483648"] pos_mod_sign[of 4294967296 "x + 2147483648"]
  by linarith

lemma pow2_powr: "pow2 k = 2 powr (of_int k)"
proof (cases "0 \<le> k")
  case True
  then have "2 powr (of_int k) = (2::real) ^ nat k"
    by (metis of_int_of_nat_eq of_nat_nat powr_realpow zero_less_numeral)
  with True show ?thesis by (simp add: pow2_def)
next
  case False
  then have "2 powr (of_int k) = 1 / (2::real) powr (of_int (- k))"
    by (simp add: powr_minus_divide)
  also have "(2::real) powr (of_int (- k)) = 2 ^ nat (- k)"
    using False by (metis less_eq_int_code(1) linorder_not_le neg_0_le_iff_le of_int_of_nat_eq of_nat_nat order_less_imp_le powr_realpow zero_less_numeral)
  finally show ?thesis using False by (simp add: pow2_def)
qed

lemma pow2_pos [simp]: "0 < pow2 k"
  by (simp add: pow2_powr)

lemma pow2_add: "pow2 (j + k) = pow2 j * pow2 k"
  by (simp add: pow2_powr powr_add)

lemma pow2_mono: "j \<le> k \<Longrightarrow> pow2 j \<le> pow2 k"
  by (simp add: pow2_powr)

lemma pow2_strict_mono: "j < k \<Longrightarrow> pow2 j < pow2 k"
  by (simp add: pow2_powr)

lemma pow2_0 [simp]: "pow2 0 = 1"
  by (simp add: pow2_def)

lemma pow2_nat: "pow2 (int n) = 2 ^ n"
  by (simp add: pow2_def)

lemma pow2_int: "0 \<le> k \<Longrightarrow> pow2 k = of_int (2 ^ nat k)"
  by (simp add: pow2_def)

lemma rhe_bounds: "q - 1 / 2 \<le> of_int (round_half_even q) \<and> of_int (round_half_even q) \<le> q + 1 / 2"
  unfolding round_half_even_def Let_def by (auto; linarith)

lemma rhe_eqI: "of_int n - 1 / 2 < q \<Longrightarrow> q < of_int n + 1 / 2 \<Longrightarrow> round_half_even q = n"
  using rhe_bounds[of q] by linarith

lemma rhe_int [simp]: "round_half_even (of_int n) = n"
  by (rule rhe_eqI) simp_all

lemma rhe_mono: "a \<le> b \<Longrightarrow> round_half_even a \<le> round_half_even b"
proof (rule ccontr)
  assume ab: "a \<le> b" and "\<not> round_half_even a \<le> round_half_even b"
  then have lt: "round_half_even b + 1 \<le> round_half_even a" by simp
  then have "of_int (round_half_even b) + 1 \<le> (of_int (round_half_even a) :: real)"
    by (metis of_int_1 of_int_add of_int_le_iff)
  with rhe_bounds[of a] rhe_bounds[of b] ab
  have e: "a = b" "of_int (round_half_even a) = a + 1 / 2" by linarith+
  with lt show False by simp
qed

lemma rhe_neg: "round_half_even (- q) = - round_half_even q"
proof (cases "q \<in> \<int>")
  case True
  then obtain n where "q = of_int n" by (auto elim: Ints_cases)
  then show ?thesis by (metis of_int_minus rhe_int)
next
  case False
  have ne: "q \<noteq> of_int \<lfloor>q\<rfloor>" using False by (metis Ints_of_int)
  then have f: "\<lfloor>- q\<rfloor> = - \<lfloor>q\<rfloor> - 1" by (simp add: floor_minus ceiling_altdef)
  from ne have r: "q - of_int \<lfloor>q\<rfloor> \<noteq> 0" "0 \<le> q - of_int \<lfloor>q\<rfloor>" "q - of_int \<lfloor>q\<rfloor> < 1"
    by (simp_all) linarith+
  show ?thesis
    unfolding round_half_even_def Let_def f
    using r by (auto simp: algebra_simps)
qed


lemma pow2_diff: "pow2 (j - k) = pow2 j / pow2 k"
  by (simp add: pow2_powr powr_diff)

lemma pow2_less_cancel: "pow2 j < pow2 k \<Longrightarrow> j < k"
  by (simp add: pow2_powr)

lemma floor_log2_bounds:
  assumes "0 < x"
  shows "pow2 \<lfloor>log 2 x\<rfloor> \<le> x" and "x < pow2 (\<lfloor>log 2 x\<rfloor> + 1)"
  using floor_log_eq_powr_iff[of x 2 "\<lfloor>log 2 x\<rfloor>"] assms by (simp_all add: pow2_powr)

lemma exponent_eqI:
  assumes "pow2 e \<le> \<bar>x\<bar>" and "\<bar>x\<bar> < pow2 (e + 1)" and "- 126 \<le> e"
  shows "exponent x = e"
proof -
  have pos: "0 < \<bar>x\<bar>" using assms(1) pow2_pos[of e] by linarith
  have "\<lfloor>log 2 \<bar>x\<bar>\<rfloor> = e"
    using floor_log_eq_powr_iff[of "\<bar>x\<bar>" 2 e] pos assms(1,2) by (simp add: pow2_powr)
  then show ?thesis using assms(3) by (simp add: exponent_def)
qed

lemma exponent_ge: "- 126 \<le> exponent x"
  by (simp add: exponent_def)

lemma exponent_minus [simp]: "exponent (- x) = exponent x"
  by (simp add: exponent_def)

lemma ulp_minus [simp]: "ulp (- x) = ulp x"
  by (simp add: ulp_def)

lemma ulp_pos [simp]: "0 < ulp x"
  by (simp add: ulp_def)

lemma ulp_nz [simp]: "ulp x \<noteq> 0"
  using ulp_pos[of x] by linarith

lemma exponent_upper: "x \<noteq> 0 \<Longrightarrow> \<bar>x\<bar> < pow2 (exponent x + 1)"
proof -
  assume "x \<noteq> 0"
  then have "\<bar>x\<bar> < pow2 (\<lfloor>log 2 \<bar>x\<bar>\<rfloor> + 1)" by (simp add: floor_log2_bounds)
  also have "\<dots> \<le> pow2 (exponent x + 1)" by (intro pow2_mono) (simp add: exponent_def)
  finally show ?thesis .
qed

lemma exponent_lower: "x \<noteq> 0 \<Longrightarrow> - 126 < exponent x \<Longrightarrow> pow2 (exponent x) \<le> \<bar>x\<bar>"
proof -
  assume nz: "x \<noteq> 0" and a: "- 126 < exponent x"
  then have e: "exponent x = \<lfloor>log 2 \<bar>x\<bar>\<rfloor>" by (simp add: exponent_def max_def split: if_splits)
  from nz show ?thesis unfolding e by (simp add: floor_log2_bounds)
qed

lemma exponent_mono: "0 < x \<Longrightarrow> x \<le> y \<Longrightarrow> exponent x \<le> exponent y"
proof -
  assume a: "0 < x" "x \<le> y"
  then have "log 2 \<bar>x\<bar> \<le> log 2 \<bar>y\<bar>" by simp
  then have "\<lfloor>log 2 \<bar>x\<bar>\<rfloor> \<le> \<lfloor>log 2 \<bar>y\<bar>\<rfloor>" by (rule floor_mono)
  then show ?thesis by (simp add: exponent_def)
qed

lemma rnd_0 [simp]: "rnd 0 = 0"
  by (simp add: rnd_def)

lemma rnd_minus: "rnd (- x) = - rnd x"
  by (simp add: rnd_def rhe_neg)

lemma rnd_le_grid: "x \<le> of_int n * ulp x \<Longrightarrow> x \<noteq> 0 \<Longrightarrow> rnd x \<le> of_int n * ulp x"
proof -
  assume a: "x \<le> of_int n * ulp x" "x \<noteq> 0"
  then have "x / ulp x \<le> of_int n" by (simp add: pos_divide_le_eq)
  then have "round_half_even (x / ulp x) \<le> n" using rhe_mono[of "x / ulp x" "of_int n"] by simp
  then have "(of_int (round_half_even (x / ulp x)) :: real) \<le> of_int n" by simp
  then show ?thesis using a(2) by (simp add: rnd_def)
qed

lemma rnd_ge_grid: "of_int n * ulp x \<le> x \<Longrightarrow> x \<noteq> 0 \<Longrightarrow> of_int n * ulp x \<le> rnd x"
proof -
  assume a: "of_int n * ulp x \<le> x" "x \<noteq> 0"
  then have "of_int n \<le> x / ulp x" by (simp add: pos_le_divide_eq)
  then have "n \<le> round_half_even (x / ulp x)" using rhe_mono[of "of_int n" "x / ulp x"] by simp
  then have "(of_int n :: real) \<le> of_int (round_half_even (x / ulp x))" by simp
  then show ?thesis using a(2) by (simp add: rnd_def)
qed

lemma rnd_nonneg: "0 \<le> x \<Longrightarrow> 0 \<le> rnd x"
  using rnd_ge_grid[of 0 x] by (cases "x = 0") simp_all

lemma rnd_nonpos: "x \<le> 0 \<Longrightarrow> rnd x \<le> 0"
  using rnd_le_grid[of x 0] by (cases "x = 0") simp_all

lemma pow2_24_ulp: "16777216 * ulp x = pow2 (exponent x + 1)"
proof -
  have "pow2 (exponent x + 1) = pow2 (24 + (exponent x - 23))"
    by (rule arg_cong[where f = pow2]) simp
  also have "\<dots> = pow2 24 * ulp x" unfolding ulp_def by (rule pow2_add)
  finally show ?thesis by (simp add: pow2_def)
qed

lemma pow2_23_ulp: "8388608 * ulp x = pow2 (exponent x)"
proof -
  have "pow2 (exponent x) = pow2 (23 + (exponent x - 23))"
    by (rule arg_cong[where f = pow2]) simp
  also have "\<dots> = pow2 23 * ulp x" unfolding ulp_def by (rule pow2_add)
  finally show ?thesis by (simp add: pow2_def)
qed

lemma rnd_upper_binade: "0 < x \<Longrightarrow> rnd x \<le> pow2 (exponent x + 1)"
  using rnd_le_grid[of x 16777216] exponent_upper[of x] by (simp add: pow2_24_ulp)

lemma rnd_lower_binade: "0 < x \<Longrightarrow> - 126 < exponent x \<Longrightarrow> pow2 (exponent x) \<le> rnd x"
  using rnd_ge_grid[of 8388608 x] exponent_lower[of x] by (simp add: pow2_23_ulp)

lemma rnd_mono_pos:
  assumes "0 < x" and "x \<le> y"
  shows "rnd x \<le> rnd y"
proof (cases "exponent x = exponent y")
  case True
  then have u: "ulp x = ulp y" by (simp add: ulp_def)
  have "x / ulp y \<le> y / ulp y" by (intro divide_right_mono less_imp_le ulp_pos assms(2))
  then have "round_half_even (x / ulp y) \<le> round_half_even (y / ulp y)" by (rule rhe_mono)
  then have "(of_int (round_half_even (x / ulp y)) :: real) * ulp y
             \<le> of_int (round_half_even (y / ulp y)) * ulp y"
    by (simp add: mult_right_mono)
  then show ?thesis using assms by (simp add: rnd_def u)
next
  case False
  with exponent_mono[OF assms] have lt: "exponent x < exponent y" by simp
  have y: "0 < y" using assms by simp
  have "rnd x \<le> pow2 (exponent x + 1)" using assms(1) by (rule rnd_upper_binade)
  also have "\<dots> \<le> pow2 (exponent y)" using lt by (intro pow2_mono) simp
  also have "\<dots> \<le> rnd y" using y lt exponent_ge[of x] by (intro rnd_lower_binade) simp_all
  finally show ?thesis .
qed

lemma rnd_mono: "x \<le> y \<Longrightarrow> rnd x \<le> rnd y"
proof -
  assume le: "x \<le> y"
  consider "0 < x" | "x \<le> 0" "0 \<le> y" | "y < 0" by linarith
  then show ?thesis
  proof cases
    case 1
    then show ?thesis using le by (rule rnd_mono_pos)
  next
    case 2
    then show ?thesis using rnd_nonneg[of y] rnd_nonpos[of x] by linarith
  next
    case 3
    then have "rnd (- y) \<le> rnd (- x)" using le by (intro rnd_mono_pos) simp_all
    then show ?thesis by (simp add: rnd_minus)
  qed
qed

lemma rnd_exact:
  assumes x: "x = of_int m * pow2 k" and m: "\<bar>m\<bar> < 16777216" and k: "- 149 \<le> k"
  shows "rnd x = x"
proof (cases "x = 0")
  case True
  then show ?thesis by simp
next
  case False
  have le: "exponent x - 23 \<le> k"
  proof (cases "- 126 < exponent x")
    case True
    have "pow2 (exponent x) \<le> \<bar>x\<bar>" using \<open>x \<noteq> 0\<close> True by (rule exponent_lower)
    also have "\<bar>x\<bar> = \<bar>of_int m\<bar> * pow2 k" by (simp add: x abs_mult abs_of_pos)
    also have "\<dots> < 16777216 * pow2 k"
    proof -
      have "(of_int \<bar>m\<bar> :: real) < of_int 16777216" using m by (simp only: of_int_less_iff)
      then have "\<bar>of_int m :: real\<bar> < 16777216" by simp
      then show ?thesis by (intro mult_strict_right_mono pow2_pos)
    qed
    also have "\<dots> = pow2 (24 + k)" by (simp add: pow2_add[of 24 k]) (simp add: pow2_def)
    finally have "exponent x < 24 + k" by (rule pow2_less_cancel)
    then show ?thesis by simp
  next
    case False
    with exponent_ge[of x] have "exponent x = - 126" by simp
    with k show ?thesis by simp
  qed
  define j where "j = k - (exponent x - 23)"
  have j: "0 \<le> j" using le by (simp add: j_def)
  have "x / ulp x = of_int m * (pow2 k / pow2 (exponent x - 23))" by (simp add: x ulp_def)
  also have "pow2 k / pow2 (exponent x - 23) = pow2 j" by (simp add: j_def pow2_diff)
  also have "pow2 j = of_int (2 ^ nat j)" using j by (rule pow2_int)
  finally have q: "x / ulp x = of_int (m * 2 ^ nat j)" by simp
  have "round_half_even (x / ulp x) = m * 2 ^ nat j" unfolding q by (rule rhe_int)
  then have "of_int (round_half_even (x / ulp x)) = x / ulp x" using q by simp
  then have "rnd x = (x / ulp x) * ulp x" using False by (simp only: rnd_def if_False)
  then show ?thesis by simp
qed

lemma rnd_of_int: "\<bar>n\<bar> \<le> 16777216 \<Longrightarrow> rnd (of_int n) = of_int n"
proof -
  assume a: "\<bar>n\<bar> \<le> 16777216"
  show ?thesis
  proof (cases "\<bar>n\<bar> = 16777216")
    case True
    then consider "n = 16777216" | "n = - 16777216" by linarith
    then show ?thesis
    proof cases
      case 1
      show ?thesis unfolding 1 using rnd_exact[of 16777216 1 24] by (simp add: pow2_def)
    next
      case 2
      show ?thesis unfolding 2 using rnd_exact[of "- 16777216" "- 1" 24] by (simp add: pow2_def)
    qed
  next
    case False
    with a have "\<bar>n\<bar> < 16777216" by simp
    then show ?thesis using rnd_exact[of "of_int n" n 0] by simp
  qed
qed

lemma rnd_half_of_int: "\<bar>n\<bar> \<le> 16777216 \<Longrightarrow> rnd (of_int n / 2) = of_int n / 2"
proof -
  assume a: "\<bar>n\<bar> \<le> 16777216"
  show ?thesis
  proof (cases "\<bar>n\<bar> = 16777216")
    case True
    then consider "n = 16777216" | "n = - 16777216" by linarith
    then show ?thesis
    proof cases
      case 1
      show ?thesis unfolding 1 using rnd_exact[of 8388608 1 23] by (simp add: pow2_def)
    next
      case 2
      show ?thesis unfolding 2 using rnd_exact[of "- 8388608" "- 1" 23] by (simp add: pow2_def)
    qed
  next
    case False
    with a have "\<bar>n\<bar> < 16777216" by simp
    then show ?thesis using rnd_exact[of "of_int n / 2" n "- 1"] by (simp add: pow2_def)
  qed
qed

lemma rnd_1 [simp]: "rnd 1 = 1"
  using rnd_of_int[of 1] by simp

lemma rnd_ge_1: "1 \<le> x \<Longrightarrow> 1 \<le> rnd x"
  using rnd_mono[of 1 x] by simp

lemma rnd_le_1: "x \<le> 1 \<Longrightarrow> rnd x \<le> 1"
  using rnd_mono[of x 1] by simp

lemma exponent_small: "x \<noteq> 0 \<Longrightarrow> \<bar>x\<bar> < pow2 (- 126) \<Longrightarrow> exponent x = - 126"
proof -
  assume False: "x \<noteq> 0"
  assume a: "\<bar>x\<bar> < pow2 (- 126)"
  have "exponent x \<le> - 126"
  proof (rule ccontr)
    assume "\<not> exponent x \<le> - 126"
    then have g: "- 126 < exponent x" by simp
    with False have "pow2 (exponent x) \<le> \<bar>x\<bar>" by (intro exponent_lower)
    moreover have "pow2 (- 126) \<le> pow2 (exponent x)" using g by (intro pow2_mono) simp
    ultimately show False using a by linarith
  qed
  with exponent_ge[of x] show ?thesis by simp
qed

lemma rnd_small: "\<bar>x\<bar> < pow2 (- 150) \<Longrightarrow> rnd x = 0"
proof (cases "x = 0")
  case True
  then show ?thesis by simp
next
  case False
  assume a: "\<bar>x\<bar> < pow2 (- 150)"
  have "pow2 (- 150) \<le> pow2 (- 126)" by (intro pow2_mono) simp
  with a False have e: "exponent x = - 126" by (intro exponent_small) simp_all
  then have u: "ulp x = pow2 (- 149)" by (simp add: ulp_def)
  have h: "pow2 (- 150) = pow2 (- 149) / 2" using pow2_diff[of "- 149" 1] by (simp add: pow2_def)
  have "\<bar>x\<bar> < (1 / 2) * pow2 (- 149)" using a h by simp
  then have "\<bar>x\<bar> / pow2 (- 149) < 1 / 2" by (simp add: pos_divide_less_eq)
  then have "\<bar>x / pow2 (- 149)\<bar> < 1 / 2" by (simp add: abs_divide abs_of_pos)
  then have "- (1 / 2) < x / pow2 (- 149) \<and> x / pow2 (- 149) < 1 / 2" by linarith
  then have "round_half_even (x / pow2 (- 149)) = 0" using rhe_eqI[of 0 "x / pow2 (- 149)"] by simp
  then show ?thesis using False by (simp add: rnd_def u)
qed

lemma rnd_eval:
  assumes "pow2 e \<le> \<bar>x\<bar>" and "\<bar>x\<bar> < pow2 (e + 1)" and "- 126 \<le> e"
    and "\<bar>x / pow2 (e - 23) - of_int m\<bar> < 1 / 2"
  shows "rnd x = of_int m * pow2 (e - 23)"
proof -
  have e: "exponent x = e" using assms(1-3) by (rule exponent_eqI)
  have "0 < \<bar>x\<bar>" using assms(1) pow2_pos[of e] by linarith
  then have nz: "x \<noteq> 0" by simp
  have "of_int m - 1 / 2 < x / pow2 (e - 23)" "x / pow2 (e - 23) < of_int m + 1 / 2"
    using assms(4) by linarith+
  then have "round_half_even (x / pow2 (e - 23)) = m" by (rule rhe_eqI)
  then show ?thesis using nz by (simp add: rnd_def ulp_def e)
qed

subsection \<open>The coordinates a loop visits\<close>

lemma radices_simps [simp]:
  "radices [] = []" "radices (s # sizes) = nat (max 1 s) # radices sizes"
  by (simp_all add: radices_def)

lemma prod_list_radices_pos [simp]: "0 < prod_list (radices sizes)"
  by (induction sizes) auto

lemma mixed_radix_zero: "mixed_radix ms 0 = replicate (length ms) 0"
  by (induction ms) auto

lemma operator_inc_loop_mixed_radix:
  "length sizes = n \<Longrightarrow> \<forall>s \<in> set sizes. s \<le> 2147483647 \<Longrightarrow> k < prod_list (radices sizes) \<Longrightarrow>
   operator_inc_loop n sizes (mixed_radix (radices sizes) k) =
     (Suc k < prod_list (radices sizes),
      mixed_radix (radices sizes) (Suc k mod prod_list (radices sizes)))"
proof (induction sizes arbitrary: n k)
  case Nil
  then show ?case by simp
next
  case (Cons s sizes)
  define m where "m = nat (max 1 s)"
  define N where "N = prod_list (radices sizes)"
  have m: "0 < m" and N: "0 < N" by (simp_all add: m_def N_def)
  from Cons.prems obtain n' where n: "n = Suc n'" "length sizes = n'" by (cases n) auto
  from Cons.prems have k: "k < m * N" by (simp add: m_def N_def)
  from Cons.prems have rest: "\<forall>s \<in> set sizes. s \<le> 2147483647" and s: "s \<le> 2147483647" by simp_all
  have "k mod m < m" using m by simp
  moreover have "int m = max 1 s" unfolding m_def by linarith
  ultimately have "int (k mod m) + 1 \<le> 2147483647" using s by linarith
  then have w: "int32 (int (k mod m) + 1) = int (k mod m) + 1" by (intro int32_id) simp_all
  have q: "k div m < N" using k m by (simp add: less_mult_imp_div_less mult.commute)
  have smod: "Suc k mod (m * N) = (if Suc k < m * N then Suc k else 0)"
  proof (cases "Suc k < m * N")
    case True
    then show ?thesis by simp
  next
    case False
    with k have "Suc k = m * N" by simp
    then show ?thesis by simp
  qed
  have goal: "operator_inc_loop (Suc n') (s # sizes)
      (int (k mod m) # mixed_radix (radices sizes) (k div m)) =
      (Suc k < m * N,
       int (Suc k mod (m * N) mod m) # mixed_radix (radices sizes) (Suc k mod (m * N) div m))"
  proof (cases "int (k mod m) + 1 < s")
    case True
    have "0 \<le> int (k mod m)" by simp
    with True have "1 < s" by linarith
    then have ms: "int m = s" by (simp add: m_def)
    with True have lt: "Suc (k mod m) < m" by linarith
    have 1: "Suc k mod m = Suc (k mod m)" using lt by (simp add: mod_Suc)
    have 2: "Suc k div m = k div m" using lt by (simp add: div_Suc mod_Suc split: if_splits)
    have 3: "Suc k < m * N"
    proof -
      have e: "m * (k div m) + k mod m = k" by simp
      have "Suc k < m * (k div m) + m" using lt e by linarith
      also have "\<dots> = m * Suc (k div m)" by simp
      also have "\<dots> \<le> m * N" using q by (intro mult_le_mono2) simp
      finally show ?thesis .
    qed
    show ?thesis using True 1 2 3 by (simp add: smod w)
  next
    case False
    have km: "k mod m = m - 1"
    proof -
      have "k mod m < m" using m by simp
      moreover have "int m = max 1 s" unfolding m_def by linarith
      ultimately show ?thesis using False m by linarith
    qed
    have e: "m * (k div m) + k mod m = k" by simp
    have sk: "Suc k = m * Suc (k div m)"
      using e km m by (simp add: algebra_simps)
    have IH: "operator_inc_loop n' sizes (mixed_radix (radices sizes) (k div m)) =
      (Suc (k div m) < N, mixed_radix (radices sizes) (Suc (k div m) mod N))"
      using Cons.IH[OF n(2) rest] q by (simp add: N_def)
    have "(m * Suc (k div m) < m * N) = (Suc (k div m) < N)"
      using m by (rule nat_mult_less_cancel1)
    then have 3: "(Suc k < m * N) = (Suc (k div m) < N)" by (simp only: sk)
    have 4: "Suc k mod (m * N) = m * (Suc (k div m) mod N)"
      by (subst sk) (simp add: mult_mod_right)
    show ?thesis using False IH 3 4 m by (simp add: w)
  qed
  show ?case using goal n unfolding m_def N_def by simp
qed

lemma do_while_enum:
  assumes "length sizes = d" and "\<forall>s \<in> set sizes. s \<le> 2147483647"
  shows "k < prod_list (radices sizes) \<Longrightarrow>
    do_while body \<lparr>m_dimensions = d, m_sizes = sizes, m_index = mixed_radix (radices sizes) k\<rparr> s =
    for_each_opt (map (mixed_radix (radices sizes)) [k..<prod_list (radices sizes)]) body s"
proof (induction "prod_list (radices sizes) - k" arbitrary: k s)
  case 0
  then show ?case by simp
next
  case (Suc j)
  let ?N = "prod_list (radices sizes)"
  let ?ix = "\<lambda>k. \<lparr>m_dimensions = d, m_sizes = sizes, m_index = mixed_radix (radices sizes) k\<rparr>"
  have inc: "operator_inc (?ix k) = (Suc k < ?N, ?ix (Suc k mod ?N))"
    using operator_inc_loop_mixed_radix[OF assms Suc.prems] by (simp add: operator_inc_def)
  have up: "[k..<?N] = k # [Suc k..<?N]" using Suc.prems by (simp add: upt_conv_Cons)
  show ?case
  proof (cases "body (mixed_radix (radices sizes) k) s")
    case None
    then show ?thesis by (subst do_while.simps) (simp add: up)
  next
    case (Some r)
    show ?thesis
    proof (cases r)
      case (Inl e)
      with Some show ?thesis by (subst do_while.simps) (simp add: up)
    next
      case (Inr s')
      show ?thesis
      proof (cases "Suc k < ?N")
        case True
        have "j = ?N - Suc k" using Suc.hyps(2) by simp
        from Suc.hyps(1)[OF this True, of s'] True Inr Some inc show ?thesis
          by (subst do_while.simps) (simp add: up)
      next
        case False
        then have "[Suc k..<?N] = []" by simp
        with False Inr Some inc show ?thesis
          by (subst do_while.simps) (simp add: up)
      qed
    qed
  qed
qed

lemma do_while_Indexer_new:
  "length sizes = d \<Longrightarrow> \<forall>s \<in> set sizes. s \<le> 2147483647 \<Longrightarrow>
   do_while body (Indexer_new d sizes) s =
   for_each_opt (map (mixed_radix (radices sizes)) [0..<prod_list (radices sizes)]) body s"
proof -
  assume d: "length sizes = d" and r: "\<forall>s \<in> set sizes. s \<le> 2147483647"
  have "mixed_radix (radices sizes) 0 = replicate d 0"
    using d by (simp add: mixed_radix_zero radices_def)
  then show ?thesis
    using do_while_enum[OF d r, of 0 body s] by (simp add: Indexer_new_def)
qed

lemma for_each_opt_visit: "for_each_opt xs visit acc = Some (Inr (acc @ xs))"
  by (induction xs arbitrary: acc) (simp_all add: visit_def)

lemma mixed_radix_value_inverse:
  "k < prod_list ms \<Longrightarrow> mixed_radix_value ms (mixed_radix ms k) = k"
proof (induction ms arbitrary: k)
  case Nil
  then show ?case by simp
next
  case (Cons m ms)
  then have m: "0 < m" by (cases m) auto
  from Cons.prems m have "k div m < prod_list ms"
    by (simp add: less_mult_imp_div_less mult.commute)
  with Cons.IH show ?case by simp
qed

lemma mixed_radix_in_range:
  "k < prod_list ms \<Longrightarrow> list_all2 (\<lambda>x m. 0 \<le> x \<and> x < int m) (mixed_radix ms k) ms"
proof (induction ms arbitrary: k)
  case Nil
  then show ?case by simp
next
  case (Cons m ms)
  then have m: "0 < m" by (cases m) auto
  from Cons.prems m have "k div m < prod_list ms"
    by (simp add: less_mult_imp_div_less mult.commute)
  with Cons.IH m show ?case by simp
qed

lemma mixed_radix_onto:
  "list_all2 (\<lambda>x m. 0 \<le> x \<and> x < int m) xs ms \<Longrightarrow>
   mixed_radix ms (mixed_radix_value ms xs) = xs \<and> mixed_radix_value ms xs < prod_list ms"
proof (induction xs ms rule: list_all2_induct)
  case Nil
  then show ?case by simp
next
  case (Cons x xs m ms)
  let ?v = "mixed_radix_value ms xs"
  from Cons have x: "nat x < m" "0 \<le> x" by auto
  have "nat x + m * ?v < m + m * ?v" using x by simp
  also have "\<dots> = m * Suc ?v" by simp
  also have "\<dots> \<le> m * prod_list ms" using Cons.IH by (intro mult_le_mono2) simp
  finally have lt: "nat x + m * ?v < m * prod_list ms" .
  show ?case using x Cons.IH lt by simp
qed

lemma set_mixed_radix:
  "set (map (mixed_radix ms) [0..<prod_list ms]) =
   {xs. list_all2 (\<lambda>x m. 0 \<le> x \<and> x < int m) xs ms}"
proof (intro set_eqI iffI)
  fix xs assume "xs \<in> set (map (mixed_radix ms) [0..<prod_list ms])"
  then show "xs \<in> {xs. list_all2 (\<lambda>x m. 0 \<le> x \<and> x < int m) xs ms}"
    by (auto intro: mixed_radix_in_range)
next
  fix xs assume "xs \<in> {xs. list_all2 (\<lambda>x m. 0 \<le> x \<and> x < int m) xs ms}"
  then have "mixed_radix ms (mixed_radix_value ms xs) = xs \<and> mixed_radix_value ms xs < prod_list ms"
    by (intro mixed_radix_onto) simp
  then show "xs \<in> set (map (mixed_radix ms) [0..<prod_list ms])"
    by (metis (no_types, lifting) atLeastLessThan_iff image_eqI set_map set_upt zero_le)
qed

lemma distinct_mixed_radix: "distinct (map (mixed_radix ms) [0..<prod_list ms])"
proof -
  have "inj_on (mixed_radix ms) (set [0..<prod_list ms])"
    by (rule inj_on_inverseI[where g = "mixed_radix_value ms"]) (simp add: mixed_radix_value_inverse)
  then show ?thesis by (simp add: distinct_map)
qed

lemma radices_pos: "\<forall>n \<in> set sizes. 1 \<le> n \<Longrightarrow> radices sizes = map nat sizes"
  by (induction sizes) auto

lemma prod_list_pos: "\<forall>n \<in> set sizes. (1::int) \<le> n \<Longrightarrow> 1 \<le> prod_list sizes"
proof (induction sizes)
  case Nil
  then show ?case by simp
next
  case (Cons n sizes)
  then have "1 \<le> n" "1 \<le> prod_list sizes" by auto
  then have "1 * 1 \<le> n * prod_list sizes" by (intro mult_mono) auto
  then show ?case by simp
qed

lemma prod_list_radices: "\<forall>n \<in> set sizes. 1 \<le> n \<Longrightarrow> prod_list (radices sizes) = nat (prod_list sizes)"
proof (induction sizes)
  case Nil
  then show ?case by simp
next
  case (Cons n sizes)
  then have "0 \<le> n" "1 \<le> prod_list sizes" by (auto intro: prod_list_pos)
  with Cons show ?case by (simp add: nat_mult_distrib)
qed

lemma in_box_radices:
  "\<forall>n \<in> set sizes. 1 \<le> n \<Longrightarrow>
   list_all2 (\<lambda>x m. 0 \<le> x \<and> x < int m) index (map nat sizes) = in_box sizes index"
  unfolding in_box_def
  by (induction sizes arbitrary: index) (auto simp: list_all2_Cons2)

lemma operator_inc_mixed_radix:
  "length sizes = d \<Longrightarrow> \<forall>s \<in> set sizes. s \<le> 2147483647 \<Longrightarrow> k < prod_list (radices sizes) \<Longrightarrow>
   operator_inc \<lparr>m_dimensions = d, m_sizes = sizes, m_index = mixed_radix (radices sizes) k\<rparr> =
     (Suc k < prod_list (radices sizes),
      \<lparr>m_dimensions = d, m_sizes = sizes,
       m_index = mixed_radix (radices sizes) (Suc k mod prod_list (radices sizes))\<rparr>)"
  using operator_inc_loop_mixed_radix[of sizes d k] by (simp add: operator_inc_def)

text \<open>
  A counter over one axis of 2147483653 elements, more than an \<^verbatim>\<open>int\<close> can count. Its
  coordinate is an \<^verbatim>\<open>int\<close>, so it is always below the size: \<^verbatim>\<open>operator++\<close> answers true
  at every coordinate, and a loop over the counter never returns.
\<close>

lemma operator_inc_long_axis:
  "operator_inc \<lparr>m_dimensions = Suc 0, m_sizes = [2147483653], m_index = [x]\<rparr> =
     (True, \<lparr>m_dimensions = Suc 0, m_sizes = [2147483653], m_index = [int32 (x + 1)]\<rparr>)"
  using int32_range[of "x + 1"] by (simp add: operator_inc_def)

lemma funpow_long_axis:
  "n \<le> 2147483647 \<Longrightarrow>
   ((\<lambda>ix. snd (operator_inc ix)) ^^ n) (Indexer_new 1 [2147483653]) =
     \<lparr>m_dimensions = 1, m_sizes = [2147483653], m_index = [int n]\<rparr>"
proof (induction n)
  case 0
  then show ?case by (simp add: Indexer_new_def)
next
  case (Suc n)
  then have "int32 (int n + 1) = int n + 1" by (intro int32_id) simp_all
  with Suc show ?case by (simp add: operator_inc_long_axis add.commute)
qed

lemma do_while_long_axis:
  assumes "do_while body ix s = Some y"
  shows "body = visit \<longrightarrow> m_dimensions ix = 1 \<longrightarrow> m_sizes ix = [2147483653]
     \<longrightarrow> length (m_index ix) = 1 \<longrightarrow> False"
proof (rule do_while.raw_induct[OF _ assms])
  fix loop :: "(int list \<Rightarrow> int list list \<Rightarrow> (error + int list list) option) \<Rightarrow> Indexer
               \<Rightarrow> int list list \<Rightarrow> (error + int list list) option"
  fix body ix s y
  assume IH: "\<And>body ix s y. loop body ix s = Some y \<Longrightarrow>
               body = visit \<longrightarrow> m_dimensions ix = 1 \<longrightarrow> m_sizes ix = [2147483653]
               \<longrightarrow> length (m_index ix) = 1 \<longrightarrow> False"
    and step: "(case body (m_index ix) s of
                  None \<Rightarrow> None
                | Some (Inl e) \<Rightarrow> Some (Inl e)
                | Some (Inr s') \<Rightarrow>
                    if fst (operator_inc ix) then loop body (snd (operator_inc ix)) s'
                    else Some (Inr s')) = Some y"
  show "body = visit \<longrightarrow> m_dimensions ix = 1 \<longrightarrow> m_sizes ix = [2147483653]
     \<longrightarrow> length (m_index ix) = 1 \<longrightarrow> False"
  proof (intro impI)
    assume b: "body = visit" and d: "m_dimensions ix = 1" and z: "m_sizes ix = [2147483653]"
      and l: "length (m_index ix) = 1"
    from l obtain x where x: "m_index ix = [x]" by (cases "m_index ix") auto
    have ix: "ix = \<lparr>m_dimensions = Suc 0, m_sizes = [2147483653], m_index = [x]\<rparr>"
      using d z x by (cases ix) simp
    from step b have
      "loop visit (snd (operator_inc ix)) (s @ [m_index ix]) = Some y"
      by (simp add: visit_def ix operator_inc_long_axis)
    from IH[OF this] show False by (simp add: ix operator_inc_long_axis)
  qed
qed




subsection \<open>Exhaustion of the counter\<close>

lemma operator_inc_loop_False:
  "length index = n \<Longrightarrow> n \<le> length sizes \<Longrightarrow>
   operator_inc_loop n sizes index = (False, index') \<Longrightarrow> index' = replicate n 0"
proof (induction n sizes index arbitrary: index' rule: operator_inc_loop.induct)
  case (1 n s sizes x index)
  obtain r rest where rec: "operator_inc_loop n sizes index = (r, rest)"
    by (cases "operator_inc_loop n sizes index")
  from "1.prems"(3) rec have nlt: "\<not> int32 (x + 1) < s" and r: "\<not> r" and i: "index' = 0 # rest"
    by (auto split: if_splits)
  from "1.IH"[OF nlt, of rest] "1.prems"(1,2) rec r have "rest = replicate n 0" by simp
  with i show ?case by simp
qed auto

text \<open>
  C9. When \<^verbatim>\<open>operator++\<close> answers false, every axis of the coordinate has been set back
  to 0: the counter is the freshly constructed one again (there is no state that marks
  exhaustion), and a loop run on it visits what a loop on a fresh counter visits.
\<close>

theorem exhausted_Indexer_is_fresh:
  assumes "length (m_index ix) = m_dimensions ix"
    and "m_dimensions ix \<le> length (m_sizes ix)"
    and "\<not> fst (operator_inc ix)"
  shows "m_index (snd (operator_inc ix)) = replicate (m_dimensions ix) 0
       \<and> snd (operator_inc ix) = Indexer_new (m_dimensions ix) (m_sizes ix)
       \<and> do_while visit (snd (operator_inc ix)) [] =
           do_while visit (Indexer_new (m_dimensions ix) (m_sizes ix)) []"
proof -
  obtain r index' where l:
    "operator_inc_loop (m_dimensions ix) (m_sizes ix) (m_index ix) = (r, index')"
    by (cases "operator_inc_loop (m_dimensions ix) (m_sizes ix) (m_index ix)")
  with assms(3) have "\<not> r" by (simp add: operator_inc_def)
  with l operator_inc_loop_False[OF assms(1,2), of index']
  have z: "index' = replicate (m_dimensions ix) 0" by simp
  have "snd (operator_inc ix) = Indexer_new (m_dimensions ix) (m_sizes ix)"
    using l z by (simp add: operator_inc_def Indexer_new_def)
  then show ?thesis by (simp add: Indexer_new_def)
qed

theorem exhausted_Indexer_is_fresh_witness:
  "\<not> fst (operator_inc \<lparr>m_dimensions = 2, m_sizes = [3, 2], m_index = [2, 1]\<rparr>)
   \<and> snd (operator_inc \<lparr>m_dimensions = 2, m_sizes = [3, 2], m_index = [2, 1]\<rparr>) = Indexer_new 2 [3, 2]
   \<and> m_index (snd (operator_inc \<lparr>m_dimensions = 2, m_sizes = [3, 2], m_index = [2, 1]\<rparr>)) = [0, 0]"
proof -
  let ?ix = "\<lparr>m_dimensions = 2, m_sizes = [3, 2], m_index = [2, 1]\<rparr>"
  have f: "\<not> fst (operator_inc ?ix)"
    by (simp add: operator_inc_def numeral_2_eq_2 int32_def)
  have a: "length (m_index ?ix) = m_dimensions ?ix" "m_dimensions ?ix \<le> length (m_sizes ?ix)"
    by simp_all
  have r: "replicate 2 (0::int) = [0, 0]" by (simp add: numeral_2_eq_2)
  from exhausted_Indexer_is_fresh[OF a f] f r show ?thesis by (simp add: Indexer_new_def)
qed

subsection \<open>The operations on single-precision numbers\<close>

lemma round32_Fin: "- (2 ^ 128) < rnd x \<Longrightarrow> rnd x < 2 ^ 128 \<Longrightarrow> round32 x = Fin (rnd x)"
  by (simp add: round32_def)

lemma round32_0 [simp]: "round32 0 = Fin 0"
  by (simp add: round32_def)

lemma round32_of_int: "\<bar>n\<bar> \<le> 16777216 \<Longrightarrow> round32 (of_int n) = Fin (of_int n)"
proof -
  assume a: "\<bar>n\<bar> \<le> 16777216"
  then have r: "rnd (of_int n) = of_int n" by (rule rnd_of_int)
  have "(of_int \<bar>n\<bar> :: real) \<le> of_int 16777216" using a by (simp only: of_int_le_iff)
  then have "\<bar>of_int n :: real\<bar> \<le> 16777216" by simp
  moreover have "(16777216::real) < 2 ^ 128" by simp
  ultimately have "- (2 ^ 128) < (of_int n :: real)" "(of_int n :: real) < 2 ^ 128" by linarith+
  then show ?thesis using r by (simp add: round32_def)
qed

lemma round32_half_of_int: "\<bar>n\<bar> \<le> 16777216 \<Longrightarrow> round32 (of_int n / 2) = Fin (of_int n / 2)"
proof -
  assume a: "\<bar>n\<bar> \<le> 16777216"
  then have r: "rnd (of_int n / 2) = of_int n / 2" by (rule rnd_half_of_int)
  have "(of_int \<bar>n\<bar> :: real) \<le> of_int 16777216" using a by (simp only: of_int_le_iff)
  then have "\<bar>of_int n :: real\<bar> \<le> 16777216" by simp
  moreover have "(16777216::real) < 2 ^ 128" by simp
  ultimately have "- (2 ^ 128) < (of_int n / 2 :: real)" "(of_int n / 2 :: real) < 2 ^ 128" by linarith+
  then show ?thesis using r by (simp add: round32_def)
qed

lemma round32_1 [simp]: "round32 1 = Fin 1"
  using round32_of_int[of 1] by simp

lemma of_int32_small: "\<bar>n\<bar> \<le> 16777216 \<Longrightarrow> of_int32 n = Fin (of_int n)"
  by (simp add: of_int32_def round32_of_int)

lemma of_int32_numerals [simp]:
  "of_int32 0 = Fin 0" "of_int32 1 = Fin 1" "of_int32 2 = Fin 2" "of_int32 3 = Fin 3"
  "of_int32 (- 1) = Fin (- 1)"
  using of_int32_small[of 0] of_int32_small[of 1] of_int32_small[of 2] of_int32_small[of 3]
    of_int32_small[of "- 1"]
  by simp_all

lemma fadd_NaN [simp]: "fadd x NaN = NaN" "fadd NaN x = NaN"
  by (cases x; simp)+

lemma fmul_NaN [simp]: "fmul x NaN = NaN" "fmul NaN x = NaN"
  by (cases x; simp)+

lemma fdiv_NaN [simp]: "fdiv x NaN = NaN" "fdiv NaN x = NaN"
  by (cases x; simp)+

lemma fsub_self: "fsub (Fin a) (Fin a) = Fin 0"
  by (simp add: fsub_def)

lemma fmul_zero_Fin [simp]: "fmul (Fin 0) (Fin b) = Fin 0" "fmul (Fin a) (Fin 0) = Fin 0"
  by simp_all

lemma fadd_zero_zero [simp]: "fadd (Fin 0) (Fin 0) = Fin 0"
  by simp

lemma to_int32_range: "- 2147483648 \<le> to_int32 x \<and> to_int32 x \<le> 2147483647"
  by (cases x) (simp_all add: Let_def)

lemma to_int32_of_int:
  "- 2147483648 \<le> n \<Longrightarrow> n \<le> 2147483647 \<Longrightarrow> to_int32 (Fin (of_int n)) = n"
  by (simp add: Let_def)

lemma to_int32_nonneg:
  "0 \<le> a \<Longrightarrow> a < 2147483648 \<Longrightarrow> to_int32 (Fin a) = \<lfloor>a\<rfloor>"
proof -
  assume a: "0 \<le> a" "a < 2147483648"
  then have "0 \<le> \<lfloor>a\<rfloor>" by simp
  moreover have "\<lfloor>a\<rfloor> < 2147483648" using a(2) by (simp add: floor_less_iff)
  ultimately show ?thesis using a(1) by (simp add: Let_def)
qed

lemma rnd_2_31: "rnd 2147483648 = 2147483648"
  using rnd_exact[of 2147483648 1 31] by (simp add: pow2_def)

lemma rnd_2_30: "rnd 1073741824 = 1073741824"
  using rnd_exact[of 1073741824 1 30] by (simp add: pow2_def)

text \<open>The rounding error is at most half the spacing, which is a 2 to the power 23 of the number or less.\<close>

lemma ulp_nonneg [simp]: "0 \<le> ulp x"
  using ulp_pos[of x] by linarith

lemma rnd_error: "\<bar>rnd x - x\<bar> \<le> ulp x / 2"
proof (cases "x = 0")
  case True
  then show ?thesis by simp
next
  case False
  have b: "x / ulp x - 1 / 2 \<le> of_int (round_half_even (x / ulp x))"
     "of_int (round_half_even (x / ulp x)) \<le> x / ulp x + 1 / 2"
    using rhe_bounds[of "x / ulp x"] by simp_all
  have "(x / ulp x - 1 / 2) * ulp x \<le> of_int (round_half_even (x / ulp x)) * ulp x"
    using b(1) by (intro mult_right_mono) simp_all
  moreover have "of_int (round_half_even (x / ulp x)) * ulp x \<le> (x / ulp x + 1 / 2) * ulp x"
    using b(2) by (intro mult_right_mono) simp_all
  moreover have "(x / ulp x - 1 / 2) * ulp x = x - ulp x / 2" "(x / ulp x + 1 / 2) * ulp x = x + ulp x / 2"
    by (simp_all add: algebra_simps)
  ultimately have "x - ulp x / 2 \<le> rnd x" "rnd x \<le> x + ulp x / 2"
    using False by (simp_all add: rnd_def)
  then show ?thesis by linarith
qed

lemma ulp_le: "pow2 (- 126) \<le> x \<Longrightarrow> ulp x \<le> x / 8388608"
proof -
  assume a: "pow2 (- 126) \<le> x"
  have x: "0 < x" using a pow2_pos[of "- 126"] by linarith
  have "pow2 (exponent x) \<le> \<bar>x\<bar>"
  proof (cases "- 126 < exponent x")
    case True
    with x show ?thesis by (intro exponent_lower) simp_all
  next
    case False
    with exponent_ge[of x] have "exponent x = - 126" by simp
    with a x show ?thesis by simp
  qed
  then have "8388608 * ulp x \<le> x" using x by (simp add: pow2_23_ulp)
  then show ?thesis by simp
qed

lemma rnd_upper_rel: "1 / 2 \<le> x \<Longrightarrow> rnd x \<le> x * (1 + 1 / 16777216)"
proof -
  assume a: "1 / 2 \<le> x"
  have "pow2 (- 126) \<le> pow2 (- 1)" by (intro pow2_mono) simp
  also have "pow2 (- 1) = 1 / 2" by (simp add: pow2_def)
  finally have "pow2 (- 126) \<le> x" using a by simp
  then have "ulp x \<le> x / 8388608" by (rule ulp_le)
  moreover have "rnd x \<le> x + ulp x / 2" using rnd_error[of x] by linarith
  moreover have "x * (1 + 1 / 16777216) = x + x / 16777216" by (simp add: algebra_simps)
  ultimately show ?thesis by linarith
qed

subsection \<open>The window geometry\<close>

lemma windowSize_range: "- 2147483648 \<le> windowSize s \<and> windowSize s \<le> 2147483647"
  unfolding windowSize_def by (rule to_int32_range)

lemma windowSize_Fin:
  assumes "0 \<le> s" and "rnd (3 * s) \<le> 2147483647"
  shows "windowSize (Fin s) = \<lceil>rnd (3 * s)\<rceil>"
proof -
  have n: "0 \<le> rnd (3 * s)" using assms(1) by (intro rnd_nonneg) simp
  then have m: "fmul (of_int32 3) (Fin s) = Fin (rnd (3 * s))"
    using assms(2) by (simp add: round32_def)
  have c: "0 \<le> \<lceil>rnd (3 * s)\<rceil>" using n by (simp add: ceiling_le_iff[symmetric] order_trans[OF _ le_of_int_ceiling])
  have "\<lceil>rnd (3 * s)\<rceil> \<le> 2147483647" using assms(2) by (simp add: ceiling_le_iff)
  with c show ?thesis unfolding windowSize_def m by (simp add: to_int32_of_int)
qed

lemma windowSize_pos: "1 \<le> windowSize s \<Longrightarrow> \<exists>a. s = Fin a \<and> 0 < a"
proof (cases s)
  case (Fin a)
  assume w: "1 \<le> windowSize s"
  have "0 < a"
  proof (rule ccontr)
    assume "\<not> 0 < a"
    then have a: "a \<le> 0" by simp
    then have r: "rnd (3 * a) \<le> 0" by (intro rnd_nonpos) simp
    have "windowSize (Fin a) \<le> 0"
    proof (cases "round32 (3 * a)")
      case (Fin y)
      then have y: "y = rnd (3 * a)" by (simp add: round32_def Let_def split: if_splits)
      with r have "\<lceil>y\<rceil> \<le> 0" by (simp add: ceiling_le_iff)
      then have "(of_int \<lceil>y\<rceil> :: real) \<le> 0" by simp
      then show ?thesis using Fin unfolding windowSize_def
        by (auto simp: Let_def split: if_splits)
    qed (simp_all add: windowSize_def)
    with w Fin show False by simp
  qed
  with Fin show ?thesis by simp
qed (simp_all add: windowSize_def)

lemma halfWindowSize_small:
  assumes "0 \<le> windowSize s" and "windowSize s \<le> 16777216"
  shows "halfWindowSize s = windowSize s div 2"
proof -
  let ?w = "windowSize s"
  have a: "\<bar>?w\<bar> \<le> 16777216" using assms by simp
  have "fmul (Fin (1 / 2)) (of_int32 ?w) = Fin (of_int ?w / 2)"
    using round32_half_of_int[OF a] by (simp add: of_int32_small[OF a])
  then have "halfWindowSize s = to_int32 (Fin (of_int ?w / 2))"
    by (simp only: halfWindowSize_def)
  also have "\<dots> = \<lfloor>(of_int ?w :: real) / 2\<rfloor>"
    using assms by (intro to_int32_nonneg) simp_all
  also have "\<dots> = ?w div 2"
    using floor_divide_of_int_eq[of ?w 2, where ?'a = real] by simp
  finally show ?thesis .
qed

lemma halfWindowSize_range:
  assumes "1 \<le> windowSize s"
  shows "0 \<le> halfWindowSize s \<and> halfWindowSize s < windowSize s"
proof -
  let ?w = "windowSize s"
  define c :: real where "c = 1 + 1 / 16777216"
  define r where "r = rnd (of_int ?w)"
  define z where "z = rnd (r / 2)"
  have w: "(1::real) \<le> of_int ?w" "(of_int ?w :: real) \<le> 2147483648"
    using assms windowSize_range[of s] by simp_all
  have r1: "1 \<le> r" unfolding r_def using w(1) by (rule rnd_ge_1)
  have r2: "r \<le> 2147483648" unfolding r_def using rnd_mono[OF w(2)] by (simp add: rnd_2_31)
  have r3: "r \<le> of_int ?w * c" unfolding r_def c_def using w(1) by (intro rnd_upper_rel) simp
  have z0: "0 \<le> z" unfolding z_def using r1 by (intro rnd_nonneg) simp
  have z2: "z \<le> 1073741824" unfolding z_def using rnd_mono[of "r / 2" 1073741824] r2 by (simp add: rnd_2_30)
  have "z \<le> (r / 2) * c" unfolding z_def c_def using r1 by (intro rnd_upper_rel) simp
  also have "\<dots> \<le> (of_int ?w * c / 2) * c"
    using r3 by (intro mult_right_mono) (simp_all add: c_def)
  also have "\<dots> = of_int ?w * (c * c / 2)" by simp
  also have "\<dots> < of_int ?w * 1"
    using w(1) by (intro mult_strict_left_mono) (simp_all add: c_def)
  finally have z3: "z < of_int ?w" by simp
  have "of_int32 ?w = Fin r" using r1 r2 by (simp add: of_int32_def round32_def r_def[symmetric])
  moreover have "round32 (r / 2) = Fin z" using z0 z2 by (simp add: round32_def z_def[symmetric])
  ultimately have "halfWindowSize s = to_int32 (Fin z)" by (simp add: halfWindowSize_def)
  also have "\<dots> = \<lfloor>z\<rfloor>" using z0 z2 by (intro to_int32_nonneg) simp_all
  finally have h: "halfWindowSize s = \<lfloor>z\<rfloor>" .
  have "\<lfloor>z\<rfloor> < ?w" using z3 by (simp add: floor_less_iff)
  moreover have "0 \<le> \<lfloor>z\<rfloor>" using z0 by simp
  ultimately show ?thesis by (simp add: h)
qed

text \<open>
  C7, the counterexample. The single-precision number next above one third,
  11184811 / 33554432: three times it is above 1, so the ceiling the claim asks for is
  2 and its half is 1; the function rounds the product to 1 before it takes the ceiling
  and gets the window size 1 and the half size 0.
\<close>

theorem window_geometry_counterexample:
  "is_f32 (11184811 / 33554432)
   \<and> (0::real) < 11184811 / 33554432
   \<and> \<lceil>3 * (11184811 / 33554432 :: real)\<rceil> = 2
   \<and> windowSize (Fin (11184811 / 33554432)) = 1
   \<and> \<lfloor>0.5 * (of_int \<lceil>3 * (11184811 / 33554432 :: real)\<rceil> :: real)\<rfloor> = 1
   \<and> halfWindowSize (Fin (11184811 / 33554432)) = 0"
proof -
  have f: "is_f32 (11184811 / 33554432)"
    using rnd_exact[of "11184811 / 33554432" 11184811 "- 25"] by (simp add: is_f32_def pow2_def)
  have c: "\<lceil>3 * (11184811 / 33554432 :: real)\<rceil> = 2" by (simp add: ceiling_eq_iff)
  have r: "rnd (3 * (11184811 / 33554432)) = 1"
    using rnd_eval[of 0 "3 * (11184811 / 33554432)" 8388608] by (simp add: pow2_def)
  have w: "windowSize (Fin (11184811 / 33554432)) = 1"
    using windowSize_Fin[of "11184811 / 33554432"] r by simp
  have h: "halfWindowSize (Fin (11184811 / 33554432)) = 0"
    using halfWindowSize_small[of "Fin (11184811 / 33554432)"] w by simp
  show ?thesis
  proof (intro conjI)
    show "is_f32 (11184811 / 33554432)" by (rule f)
    show "(0::real) < 11184811 / 33554432" by simp
    show "\<lceil>3 * (11184811 / 33554432 :: real)\<rceil> = 2" by (rule c)
    show "windowSize (Fin (11184811 / 33554432)) = 1" by (rule w)
    show "\<lfloor>0.5 * (of_int \<lceil>3 * (11184811 / 33554432 :: real)\<rceil> :: real)\<rfloor> = 1"
      unfolding c by simp
    show "halfWindowSize (Fin (11184811 / 33554432)) = 0" by (rule h)
  qed
qed

text \<open>
  C7, amended. For a spatialSigma above 0 and at most 4194304 the window size is the
  ceiling of the product \<open>3 * spatialSigma\<close> rounded to single precision: it is the
  ceiling of the exact product or one less. The half size is the window size halved and
  rounded down.
\<close>

theorem window_geometry:
  assumes "0 < s" and "s \<le> 4194304"
  shows "windowSize (Fin s) = \<lceil>rnd (3 * s)\<rceil>
       \<and> \<lceil>3 * s\<rceil> - 1 \<le> windowSize (Fin s)
       \<and> windowSize (Fin s) \<le> \<lceil>3 * s\<rceil>
       \<and> halfWindowSize (Fin s) = windowSize (Fin s) div 2"
proof -
  have u: "3 * s \<le> 12582912" using assms(2) by simp
  have "rnd (3 * s) \<le> rnd (of_int 12582912)" using u by (intro rnd_mono) simp
  also have "\<dots> = 12582912" using rnd_of_int[of 12582912] by simp
  finally have r: "rnd (3 * s) \<le> 12582912" .
  have w: "windowSize (Fin s) = \<lceil>rnd (3 * s)\<rceil>"
    using assms(1) r by (intro windowSize_Fin) simp_all
  have n: "0 \<le> rnd (3 * s)" using assms(1) by (intro rnd_nonneg) simp
  have c0: "0 \<le> \<lceil>3 * s\<rceil>" using assms(1) by (simp add: order_trans[OF _ le_of_int_ceiling])
  have c1: "\<lceil>3 * s\<rceil> \<le> 12582912" using u by (simp add: ceiling_le_iff)
  have "rnd (3 * s) \<le> rnd (of_int \<lceil>3 * s\<rceil>)" by (intro rnd_mono) simp
  also have "\<dots> = of_int \<lceil>3 * s\<rceil>" using c0 c1 by (intro rnd_of_int) simp
  finally have up: "\<lceil>rnd (3 * s)\<rceil> \<le> \<lceil>3 * s\<rceil>" by (simp add: ceiling_le_iff)
  have f0: "0 \<le> \<lfloor>3 * s\<rfloor>" using assms(1) by simp
  have f1: "\<lfloor>3 * s\<rfloor> \<le> 12582912" using u by (simp add: floor_le_iff)
  have "of_int \<lfloor>3 * s\<rfloor> = rnd (of_int \<lfloor>3 * s\<rfloor>)" using f0 f1 by (intro rnd_of_int[symmetric]) simp
  also have "\<dots> \<le> rnd (3 * s)" by (intro rnd_mono) simp
  finally have "\<lfloor>3 * s\<rfloor> \<le> \<lceil>rnd (3 * s)\<rceil>" by (simp add: le_ceiling_iff)
  moreover have "\<lceil>3 * s\<rceil> - 1 \<le> \<lfloor>3 * s\<rfloor>" by linarith
  ultimately have lo: "\<lceil>3 * s\<rceil> - 1 \<le> \<lceil>rnd (3 * s)\<rceil>" by simp
  have w0: "0 \<le> windowSize (Fin s)" unfolding w using n by (simp add: order_trans[OF _ le_of_int_ceiling])
  have w1: "windowSize (Fin s) \<le> 16777216" unfolding w using up c1 by linarith
  have h: "halfWindowSize (Fin s) = windowSize (Fin s) div 2"
    using w0 w1 by (rule halfWindowSize_small)
  show ?thesis using w lo up h by simp
qed

theorem window_geometry_witness:
  "(0::real) < 1 \<and> (1::real) \<le> 4194304 \<and> windowSize (Fin 1) = 3 \<and> halfWindowSize (Fin 1) = 1"
proof -
  have a: "(0::real) < 1" "(1::real) \<le> 4194304" by simp_all
  have r: "rnd 3 = 3" using rnd_of_int[of 3] by simp
  from window_geometry[OF a] have w: "windowSize (Fin 1) = 3" by (simp add: r)
  from window_geometry[OF a] w have "halfWindowSize (Fin 1) = 1" by simp
  with w show ?thesis by simp
qed

subsection \<open>The table of spatial weights\<close>

lemma round32_numerals [simp]:
  "round32 2 = Fin 2" "round32 3 = Fin 3" "round32 (- 1) = Fin (- 1)"
  "round32 (1 / 2) = Fin (1 / 2)" "round32 (- (1 / 2)) = Fin (- (1 / 2))"
  "round32 (3 / 2) = Fin (3 / 2)"
  using round32_of_int[of 2] round32_of_int[of 3] round32_of_int[of "- 1"]
    round32_half_of_int[of 1] round32_half_of_int[of "- 1"] round32_half_of_int[of 3]
  by simp_all

lemma windowSize_1: "windowSize (Fin 1) = 3"
  using windowSize_Fin[of 1] rnd_of_int[of 3] by simp

lemma halfWindowSize_1: "halfWindowSize (Fin 1) = 1"
  using halfWindowSize_small[of "Fin 1"] by (simp add: windowSize_1)

lemma spatialExpConstant_1: "spatialExpConstant (Fin 1) = Fin (- (1 / 2))"
  by (simp add: spatialExpConstant_def)

lemma colorExpConstant_1: "colorExpConstant (Fin 1) = Fin (- (1 / 2))"
  by (simp add: colorExpConstant_def)

lemma upt_3: "[0..<3] = [0, 1, 2]"
  by (simp add: upt_rec)

lemma gaussianKernel_1:
  "gaussianKernel (Fin 1) = [fexp (Fin (1 / 2)), Fin 1, fexp (Fin (- (1 / 2)))]"
  by (simp add: gaussianKernel_def windowSize_1 halfWindowSize_1 spatialExpConstant_1 upt_3
      int32_def)

lemma length_gaussianKernel [simp]:
  "length (gaussianKernel spatialSigma) = nat (windowSize spatialSigma)"
  by (simp add: gaussianKernel_def)

lemma gaussianKernel_nth:
  "i < nat (windowSize spatialSigma) \<Longrightarrow>
   gaussianKernel spatialSigma ! i =
     fexp (fmul (of_int32 (int32 (int i - halfWindowSize spatialSigma)))
             (spatialExpConstant spatialSigma))"
  by (simp add: gaussianKernel_def)

lemma exp_half_bounds: "3 / 2 \<le> exp (1 / 2 :: real)" "exp (1 / 2 :: real) \<le> 3"
proof -
  show "3 / 2 \<le> exp (1 / 2 :: real)" using exp_ge_add_one_self[of "1 / 2"] by simp
  have "exp (1 / 2 :: real) \<le> exp 1" by simp
  also have "\<dots> \<le> 3" by (rule exp_le)
  finally show "exp (1 / 2 :: real) \<le> 3" .
qed

lemma exp_minus_half_bounds: "0 < exp (- (1 / 2) :: real)" "exp (- (1 / 2) :: real) \<le> 3 / 4"
proof -
  show "0 < exp (- (1 / 2) :: real)" by simp
  have "exp (- (1 / 2) :: real) = inverse (exp (1 / 2))" by (rule exp_minus)
  also have "\<dots> \<le> inverse (3 / 2)"
    using exp_half_bounds(1) by (intro le_imp_inverse_le) simp_all
  also have "\<dots> \<le> 3 / 4" by simp
  finally show "exp (- (1 / 2) :: real) \<le> 3 / 4" .
qed

lemma fexp_half: "\<exists>a. fexp (Fin (1 / 2)) = Fin a \<and> 3 / 2 \<le> a \<and> a \<le> 3"
proof -
  have "rnd (3 / 2) \<le> rnd (exp (1 / 2))" using exp_half_bounds(1) by (rule rnd_mono)
  then have lo: "3 / 2 \<le> rnd (exp (1 / 2))" using rnd_half_of_int[of 3] by simp
  have "rnd (exp (1 / 2)) \<le> rnd 3" using exp_half_bounds(2) by (rule rnd_mono)
  then have hi: "rnd (exp (1 / 2)) \<le> 3" using rnd_of_int[of 3] by simp
  from lo hi have "round32 (exp (1 / 2)) = Fin (rnd (exp (1 / 2)))" by (simp add: round32_def)
  with lo hi show ?thesis by simp
qed

lemma fexp_minus_half: "\<exists>b. fexp (Fin (- (1 / 2))) = Fin b \<and> 0 \<le> b \<and> b \<le> 3 / 4"
proof -
  have "rnd (exp (- (1 / 2))) \<le> rnd (3 / 4)" using exp_minus_half_bounds(2) by (rule rnd_mono)
  moreover have "rnd (3 / 4) = 3 / 4" using rnd_exact[of "3 / 4" 3 "- 2"] by (simp add: pow2_def)
  ultimately have hi: "rnd (exp (- (1 / 2))) \<le> 3 / 4" by simp
  have lo: "0 \<le> rnd (exp (- (1 / 2)))" by (intro rnd_nonneg) simp
  from lo hi have "round32 (exp (- (1 / 2))) = Fin (rnd (exp (- (1 / 2))))" by (simp add: round32_def)
  with lo hi show ?thesis by simp
qed

text \<open>
  C1. The table does not hold the Gaussian of the squared distance: the code multiplies
  \<^verbatim>\<open>spatialExpConstant\<close> by the signed distance \<open>i - halfWindowSize\<close>, not by its square.
  For \<open>spatialSigma = 1\<close> the window has 3 entries and \<open>halfWindowSize = 1\<close>; entry 0 is
  at distance -1 and the constant is \<open>- 1 / 2\<close>. The code stores the rounded exponential
  of \<open>1 / 2\<close>, a number of at least \<open>3 / 2\<close>. The claimed entry is the exponential of
  \<open>- 1 / 2\<close>: computed in single precision it is at most \<open>3 / 4\<close>, and the stored entry
  is neither that nor the exact one.
\<close>

theorem gaussianKernel_distance_not_squared:
  "gaussianKernel (Fin 1) ! 0 = fexp (Fin (1 / 2))
   \<and> fexp (fmul (of_int32 (int32 ((0 - halfWindowSize (Fin 1)) * (0 - halfWindowSize (Fin 1)))))
             (spatialExpConstant (Fin 1))) = fexp (Fin (- (1 / 2)))
   \<and> exp ((of_int (0 - halfWindowSize (Fin 1)))\<^sup>2 * (- 1 / (2 * 1\<^sup>2))) = exp (- (1 / 2) :: real)
   \<and> (\<exists>a b. fexp (Fin (1 / 2)) = Fin a \<and> 3 / 2 \<le> a
           \<and> fexp (Fin (- (1 / 2))) = Fin b \<and> b \<le> 3 / 4 \<and> exp (- (1 / 2) :: real) \<le> 3 / 4)
   \<and> gaussianKernel (Fin 1) ! 0 \<noteq>
       fexp (fmul (of_int32 (int32 ((0 - halfWindowSize (Fin 1)) * (0 - halfWindowSize (Fin 1)))))
               (spatialExpConstant (Fin 1)))
   \<and> gaussianKernel (Fin 1) ! 0 \<noteq>
       Fin (exp ((of_int (0 - halfWindowSize (Fin 1)))\<^sup>2 * (- 1 / (2 * 1\<^sup>2))))"
proof -
  obtain a where a: "fexp (Fin (1 / 2)) = Fin a" "3 / 2 \<le> a" using fexp_half by blast
  obtain b where b: "fexp (Fin (- (1 / 2))) = Fin b" "b \<le> 3 / 4" using fexp_minus_half by blast
  have 1: "gaussianKernel (Fin 1) ! 0 = fexp (Fin (1 / 2))" by (simp add: gaussianKernel_1)
  have 2: "fexp (fmul (of_int32 (int32 ((0 - halfWindowSize (Fin 1)) * (0 - halfWindowSize (Fin 1)))))
             (spatialExpConstant (Fin 1))) = fexp (Fin (- (1 / 2)))"
    by (simp add: halfWindowSize_1 spatialExpConstant_1 int32_def)
  have 3: "exp ((of_int (0 - halfWindowSize (Fin 1)))\<^sup>2 * (- 1 / (2 * 1\<^sup>2))) = exp (- (1 / 2) :: real)"
    by (simp add: halfWindowSize_1)
  have 4: "\<exists>a b. fexp (Fin (1 / 2)) = Fin a \<and> 3 / 2 \<le> a
           \<and> fexp (Fin (- (1 / 2))) = Fin b \<and> b \<le> 3 / 4 \<and> exp (- (1 / 2) :: real) \<le> 3 / 4"
    using a b exp_minus_half_bounds(2) by blast
  have 5: "fexp (Fin (1 / 2)) \<noteq> fexp (Fin (- (1 / 2)))"
    using a b by auto
  have 6: "fexp (Fin (1 / 2)) \<noteq> Fin (exp (- (1 / 2)))"
    using a exp_minus_half_bounds(2) by auto
  show ?thesis
    unfolding 2 3 unfolding 1 using 4 5 6 by blast
qed

subsection \<open>Offsets stay inside the buffer\<close>

lemma foldl_plus_sum_list:
  "foldl (\<lambda>off i. off + f i) (b::'a::monoid_add) xs = b + sum_list (map f xs)"
  by (induction xs arbitrary: b) (simp_all add: add.assoc)

lemma foldl_int32_sum_list:
  "0 \<le> b \<Longrightarrow> \<forall>i \<in> set xs. 0 \<le> f i \<Longrightarrow> b + sum_list (map f xs) \<le> 2147483647 \<Longrightarrow>
   foldl (\<lambda>off i. int32 (off + f i)) b xs = b + sum_list (map f xs)"
proof (induction xs arbitrary: b)
  case Nil
  then show ?case by simp
next
  case (Cons x xs)
  have r: "0 \<le> sum_list (map f xs)" using Cons.prems(2) by (intro sum_list_nonneg) auto
  have x: "0 \<le> f x" using Cons.prems(2) by simp
  have w: "int32 (b + f x) = b + f x"
    using Cons.prems(1,3) r x by (intro int32_id) simp_all
  have "foldl (\<lambda>off i. int32 (off + f i)) (b + f x) xs = (b + f x) + sum_list (map f xs)"
    using Cons.prems x by (intro Cons.IH) simp_all
  then show ?case by (simp add: w add.assoc)
qed

lemma map2_conv_nth:
  "length xs = length ys \<Longrightarrow> map2 f xs ys = map (\<lambda>i. f (xs ! i) (ys ! i)) [0..<length xs]"
  by (rule nth_equalityI) simp_all

lemma tensor_ok_axes:
  assumes "tensor_ok h input"
  obtains n0 n1 ns s0 s1 ss where
    "t_sizes input = n0 # n1 # ns" "t_strides input = s0 # s1 # ss" "length ss = length ns"
    "ns \<noteq> []"
proof -
  from assms have l: "3 \<le> length (t_sizes input)" "length (t_strides input) = length (t_sizes input)"
    by (simp_all add: tensor_ok_def)
  then obtain n0 n1 ns where n: "t_sizes input = n0 # n1 # ns"
    by (cases "t_sizes input"; cases "tl (t_sizes input)") auto
  with l obtain s0 s1 ss where s: "t_strides input = s0 # s1 # ss"
    by (cases "t_strides input"; cases "tl (t_strides input)") auto
  from n s l have "length ss = length ns" "ns \<noteq> []" by auto
  with n s that show thesis by blast
qed

lemma tensor_ok_sizes:
  "tensor_ok h input \<Longrightarrow> i < spatialDimensionCount input \<Longrightarrow> 1 \<le> spatialDimensionSizes input ! i"
  by (auto simp: tensor_ok_def spatialDimensionCount_def spatialDimensionSizes_def)

lemma int_ranged_sizes:
  "int_ranged input \<Longrightarrow> i < spatialDimensionCount input \<Longrightarrow>
   spatialDimensionSizes input ! i \<le> 2147483647"
  by (auto simp: int_ranged_def spatialDimensionCount_def spatialDimensionSizes_def)

lemma length_spatial [simp]:
  "length (spatialDimensionSizes input) = spatialDimensionCount input"
  by (simp add: spatialDimensionSizes_def spatialDimensionCount_def)

text \<open>On a valid input that fits the \<^verbatim>\<open>int\<close> variables the four scalars are the sizes and strides.\<close>

lemma locals_ranged:
  assumes "tensor_ok h input" and "int_ranged input"
  shows "batchCount input = t_sizes input ! 0" and "channelCount input = t_sizes input ! 1"
    and "batchStride input = t_strides input ! 0" and "channelStride input = t_strides input ! 1"
    and "1 \<le> batchCount input" and "1 \<le> channelCount input"
proof -
  from assms(1) obtain n0 n1 ns s0 s1 ss where
    n: "t_sizes input = n0 # n1 # ns" and s: "t_strides input = s0 # s1 # ss"
    by (rule tensor_ok_axes)
  from assms n s have "1 \<le> n0" "n0 \<le> 2147483647" "1 \<le> n1" "n1 \<le> 2147483647"
    "0 \<le> s0" "s0 \<le> 2147483647" "0 \<le> s1" "s1 \<le> 2147483647"
    by (simp_all add: tensor_ok_def int_ranged_def)
  then show "batchCount input = t_sizes input ! 0" and "channelCount input = t_sizes input ! 1"
    and "batchStride input = t_strides input ! 0" and "channelStride input = t_strides input ! 1"
    and "1 \<le> batchCount input" and "1 \<le> channelCount input"
    by (simp_all add: batchCount_def channelCount_def batchStride_def channelStride_def n s int32_id)
qed

lemma offset_in_buffer:
  assumes ok: "tensor_ok h input"
    and b: "int b < t_sizes input ! 0"
    and c: "int c < t_sizes input ! 1"
    and x: "\<forall>i < spatialDimensionCount input. 0 \<le> x i \<and> x i \<le> spatialDimensionSizes input ! i - 1"
  shows "0 \<le> int b * (t_strides input ! 0)"
    and "0 \<le> int c * (t_strides input ! 1)"
    and "\<forall>i \<in> set [0..<spatialDimensionCount input]. 0 \<le> x i * spatialDimensionStrides input ! i"
    and "int b * (t_strides input ! 0)
             + sum_list (map (\<lambda>i. x i * spatialDimensionStrides input ! i)
                          [0..<spatialDimensionCount input])
             + int c * (t_strides input ! 1) \<le> max_offset input"
proof -
  from ok obtain n0 n1 ns s0 s1 ss where
    n: "t_sizes input = n0 # n1 # ns" and s: "t_strides input = s0 # s1 # ss"
    and l: "length ss = length ns"
    by (rule tensor_ok_axes)
  have d: "spatialDimensionCount input = length ns"
    and sz: "spatialDimensionSizes input = ns" and st: "spatialDimensionStrides input = ss"
    by (simp_all add: spatialDimensionCount_def spatialDimensionSizes_def
        spatialDimensionStrides_def n s)
  from ok s have s0: "0 \<le> s0" and s1: "0 \<le> s1" and ss: "\<forall>i < length ns. 0 \<le> ss ! i"
    using l by (auto simp: tensor_ok_def)
  let ?S = "sum_list (map (\<lambda>i. x i * ss ! i) [0..<length ns])"
  let ?T = "sum_list (map (\<lambda>i. (ns ! i - 1) * ss ! i) [0..<length ns])"
  have hi: "?S \<le> ?T"
    using x ss by (intro sum_list_mono) (auto simp: d sz intro!: mult_right_mono)
  have "map2 (\<lambda>n s. (n - 1) * s) ns ss = map (\<lambda>i. (ns ! i - 1) * ss ! i) [0..<length ns]"
    using l by (simp add: map2_conv_nth)
  then have total: "max_offset input = (n0 - 1) * s0 + ((n1 - 1) * s1 + ?T)"
    by (simp add: max_offset_def n s)
  show b0: "0 \<le> int b * (t_strides input ! 0)" using s0 by (simp add: s)
  show c0: "0 \<le> int c * (t_strides input ! 1)" using s1 by (simp add: s)
  show "\<forall>i \<in> set [0..<spatialDimensionCount input]. 0 \<le> x i * spatialDimensionStrides input ! i"
    using x ss by (auto simp: d st)
  have b1: "int b * s0 \<le> (n0 - 1) * s0" using b s0 by (intro mult_right_mono) (simp_all add: n)
  have c1: "int c * s1 \<le> (n1 - 1) * s1" using c s1 by (intro mult_right_mono) (simp_all add: n)
  show "int b * (t_strides input ! 0)
             + sum_list (map (\<lambda>i. x i * spatialDimensionStrides input ! i)
                          [0..<spatialDimensionCount input])
             + int c * (t_strides input ! 1) \<le> max_offset input"
    using hi total b1 c1 by (simp add: d st s)
qed

text \<open>
  The offset the function computes for a batch, a coordinate inside the box and a
  channel, on a valid input that fits the \<^verbatim>\<open>int\<close> variables: no step wraps, and the
  subscript is inside the buffer.
\<close>

lemma offset_wrapped:
  assumes ok: "tensor_ok h input" and rg: "int_ranged input"
    and b: "int b < batchCount input"
    and x: "\<forall>i < spatialDimensionCount input. 0 \<le> x i \<and> x i \<le> spatialDimensionSizes input ! i - 1"
  shows "foldl (\<lambda>off i. int32 (off + x i * spatialDimensionStrides input ! i))
           (int32 (int b * batchStride input)) [0..<spatialDimensionCount input] =
         int b * (t_strides input ! 0)
           + sum_list (map (\<lambda>i. x i * spatialDimensionStrides input ! i)
                        [0..<spatialDimensionCount input])"
proof -
  note loc = locals_ranged[OF ok rg]
  from b have b': "int b < t_sizes input ! 0" by (simp add: loc)
  have c': "int 0 < t_sizes input ! 1" using loc(2,6) by simp
  note o = offset_in_buffer[OF ok b' c' x]
  from rg have m: "max_offset input \<le> 2147483647" by (simp add: int_ranged_def)
  let ?S = "sum_list (map (\<lambda>i. x i * spatialDimensionStrides input ! i)
                        [0..<spatialDimensionCount input])"
  have S0: "0 \<le> ?S" using o(3) by (intro sum_list_nonneg) auto
  have le: "int b * (t_strides input ! 0) + ?S \<le> 2147483647" using o(4) m by simp
  have w: "int32 (int b * batchStride input) = int b * (t_strides input ! 0)"
    using o(1) le S0 by (simp add: loc int32_id)
  show ?thesis unfolding w using o(1) o(3) le by (rule foldl_int32_sum_list)
qed

lemma subscript_wrapped:
  assumes ok: "tensor_ok h input" and rg: "int_ranged input"
    and b: "int b < batchCount input" and c: "int c < channelCount input"
    and x: "\<forall>i < spatialDimensionCount input. 0 \<le> x i \<and> x i \<le> spatialDimensionSizes input ! i - 1"
    and off: "off = int b * (t_strides input ! 0)
           + sum_list (map (\<lambda>i. x i * spatialDimensionStrides input ! i)
                        [0..<spatialDimensionCount input])"
  shows "subscript input off c = off + int c * (t_strides input ! 1)"
    and "0 \<le> subscript input off c"
    and "subscript input off c \<le> max_offset input"
    and "subscript input off c < int (length (h ! t_data input))"
proof -
  note loc = locals_ranged[OF ok rg]
  from b have b': "int b < t_sizes input ! 0" by (simp add: loc)
  from c have c': "int c < t_sizes input ! 1" by (simp add: loc)
  note o = offset_in_buffer[OF ok b' c' x]
  from rg have m: "max_offset input \<le> 2147483647" by (simp add: int_ranged_def)
  have S0: "0 \<le> sum_list (map (\<lambda>i. x i * spatialDimensionStrides input ! i)
                        [0..<spatialDimensionCount input])"
    using o(3) by (intro sum_list_nonneg) auto
  have off0: "0 \<le> off" using o(1) S0 by (simp add: off)
  have le: "off + int c * (t_strides input ! 1) \<le> max_offset input" using o(4) by (simp add: off)
  have w1: "int32 (int c * channelStride input) = int c * (t_strides input ! 1)"
    using o(2) le off0 m by (simp add: loc int32_id)
  have w2: "int32 (off + int c * (t_strides input ! 1)) = off + int c * (t_strides input ! 1)"
    using o(2) le off0 m by (intro int32_id) simp_all
  show e: "subscript input off c = off + int c * (t_strides input ! 1)"
    by (simp only: subscript_def w1 w2)
  show "0 \<le> subscript input off c" using off0 o(2) by (simp add: e)
  show "subscript input off c \<le> max_offset input" using le by (simp add: e)
  with ok show "subscript input off c < int (length (h ! t_data input))"
    by (simp add: tensor_ok_def)
qed

lemma in_box_nth:
  "in_box sizes index \<Longrightarrow> i < length sizes \<Longrightarrow> 0 \<le> index ! i \<and> index ! i < sizes ! i"
  by (auto simp: in_box_def list_all2_conv_all_nth)

lemma in_box_length: "in_box sizes index \<Longrightarrow> length index = length sizes"
  by (auto simp: in_box_def list_all2_lengthD)

lemma in_box_bounds:
  "in_box (spatialDimensionSizes input) index \<Longrightarrow>
   \<forall>i < spatialDimensionCount input. 0 \<le> index ! i \<and> index ! i \<le> spatialDimensionSizes input ! i - 1"
  using in_box_nth[of "spatialDimensionSizes input" index] by fastforce

lemma homeOffset_wrapped:
  assumes "tensor_ok h input" and "int_ranged input" and "int b < batchCount input"
    and "in_box (spatialDimensionSizes input) homeIndex"
  shows "homeOffset input (int32 (int b * batchStride input)) homeIndex =
         int b * (t_strides input ! 0)
           + sum_list (map (\<lambda>i. homeIndex ! i * spatialDimensionStrides input ! i)
                        [0..<spatialDimensionCount input])"
  unfolding homeOffset_def
  using offset_wrapped[OF assms(1-3) in_box_bounds[OF assms(4)]] .

lemma clamp_limit:
  assumes "tensor_ok h input" and "int_ranged input" and "i < spatialDimensionCount input"
  shows "int32 (int32 (spatialDimensionSizes input ! i) - 1) = spatialDimensionSizes input ! i - 1"
proof -
  have "1 \<le> spatialDimensionSizes input ! i" "spatialDimensionSizes input ! i \<le> 2147483647"
    using assms by (simp_all add: tensor_ok_sizes int_ranged_sizes)
  then show ?thesis by (simp add: int32_id)
qed

lemma neighbourIndexClamped_range:
  assumes "tensor_ok h input" and "int_ranged input"
  shows "\<forall>i < spatialDimensionCount input.
           0 \<le> neighbourIndexClamped input spatialSigma homeIndex kernelIndex i
           \<and> neighbourIndexClamped input spatialSigma homeIndex kernelIndex i
               \<le> spatialDimensionSizes input ! i - 1"
proof (intro allI impI)
  fix i assume i: "i < spatialDimensionCount input"
  have "1 \<le> spatialDimensionSizes input ! i" using assms(1) i by (rule tensor_ok_sizes)
  then show "0 \<le> neighbourIndexClamped input spatialSigma homeIndex kernelIndex i
           \<and> neighbourIndexClamped input spatialSigma homeIndex kernelIndex i
               \<le> spatialDimensionSizes input ! i - 1"
    by (simp add: neighbourIndexClamped_def clamp_limit[OF assms i])
qed

lemma neighbourOffset_wrapped:
  assumes "tensor_ok h input" and "int_ranged input" and "int b < batchCount input"
  shows "neighbourOffset input spatialSigma (int32 (int b * batchStride input)) homeIndex kernelIndex =
         int b * (t_strides input ! 0)
           + sum_list (map (\<lambda>i. neighbourIndexClamped input spatialSigma homeIndex kernelIndex i
                                  * spatialDimensionStrides input ! i)
                        [0..<spatialDimensionCount input])"
  unfolding neighbourOffset_def
  using offset_wrapped[OF assms neighbourIndexClamped_range[OF assms(1,2)]] .

lemma load_home:
  assumes "tensor_ok h input" and "int_ranged input"
    and "int b < batchCount input" and "int c < channelCount input"
    and "in_box (spatialDimensionSizes input) homeIndex"
  shows "load h (t_data input)
           (subscript input (homeOffset input (int32 (int b * batchStride input)) homeIndex) c) =
         Inr (h ! t_data input !
                nat (subscript input (homeOffset input (int32 (int b * batchStride input)) homeIndex) c))"
  using subscript_wrapped(2,4)[OF assms(1-4) in_box_bounds[OF assms(5)]
      homeOffset_wrapped[OF assms(1-3,5)]] assms(1)
  by (simp add: load_def tensor_ok_def)

lemma load_neighbour:
  assumes "tensor_ok h input" and "int_ranged input"
    and "int b < batchCount input" and "int c < channelCount input"
  shows "load h (t_data input)
           (subscript input
              (neighbourOffset input spatialSigma (int32 (int b * batchStride input)) homeIndex kernelIndex) c) =
         Inr (h ! t_data input !
                nat (subscript input
                       (neighbourOffset input spatialSigma (int32 (int b * batchStride input))
                          homeIndex kernelIndex) c))"
  using subscript_wrapped(2,4)[OF assms neighbourIndexClamped_range[OF assms(1,2)]
      neighbourOffset_wrapped[OF assms(1-3)]] assms(1)
  by (simp add: load_def tensor_ok_def)

text \<open>The neighbour coordinate when home plus window coordinate is an \<^verbatim>\<open>int\<close>.\<close>

lemma length_kernelSize [simp]:
  "length (kernelSize input spatialSigma) = spatialDimensionCount input"
  by (simp add: kernelSize_def)

lemma kernelSize_nth:
  "i < spatialDimensionCount input \<Longrightarrow> kernelSize input spatialSigma ! i = windowSize spatialSigma"
  by (simp add: kernelSize_def)

lemma neighbourIndex_exact:
  assumes ok: "tensor_ok h input" and rg: "int_ranged input" and wf: "window_fits input spatialSigma"
    and hb: "in_box (spatialDimensionSizes input) homeIndex"
    and kb: "in_box (kernelSize input spatialSigma) kernelIndex"
    and i: "i < spatialDimensionCount input"
  shows "neighbourIndex spatialSigma homeIndex kernelIndex i =
         homeIndex ! i + kernelIndex ! i - halfWindowSize spatialSigma"
proof -
  from wf have w1: "1 \<le> windowSize spatialSigma" by (simp add: window_fits_def)
  have "spatialDimensionSizes input ! i \<in> set (spatialDimensionSizes input)"
    using i by (intro nth_mem) simp
  with wf have fit: "spatialDimensionSizes input ! i + windowSize spatialSigma \<le> 2147483648"
    by (simp add: window_fits_def)
  from in_box_nth[OF hb] i have hx: "0 \<le> homeIndex ! i" "homeIndex ! i < spatialDimensionSizes input ! i"
    by simp_all
  from in_box_nth[OF kb] i have kx: "0 \<le> kernelIndex ! i" "kernelIndex ! i < windowSize spatialSigma"
    by (simp_all add: kernelSize_nth)
  from halfWindowSize_range[OF w1] have hw: "0 \<le> halfWindowSize spatialSigma"
    "halfWindowSize spatialSigma < windowSize spatialSigma" by simp_all
  have a: "int32 (homeIndex ! i + kernelIndex ! i) = homeIndex ! i + kernelIndex ! i"
    using hx kx fit by (intro int32_id) simp_all
  have "int32 (homeIndex ! i + kernelIndex ! i - halfWindowSize spatialSigma) =
        homeIndex ! i + kernelIndex ! i - halfWindowSize spatialSigma"
    using hx kx fit hw windowSize_range[of spatialSigma] by (intro int32_id) simp_all
  then show ?thesis by (simp add: neighbourIndex_def a)
qed

text \<open>
  C4, amended. On a valid input that fits the \<^verbatim>\<open>int\<close> variables of the function (every
  size, every stride and the largest offset at most 2147483647) and a window that fits
  (a spatial size plus the window size at most 2147483648), for any batch, any channel,
  any home coordinate of the box and any window coordinate, the neighbour coordinate on
  each spatial axis is \<open>home + window - halfWindowSize\<close> clamped into \<open>[0, size - 1]\<close>: 0
  when the candidate is negative, \<open>size - 1\<close> when it is past the last index, the
  candidate itself otherwise. The neighbour offset is the batch offset plus the clamped
  coordinates times the strides, without a wrap, and the read of the channel at that
  offset is inside the buffer.
\<close>

theorem neighbour_clamped_into_bounds:
  assumes "tensor_ok h input" and "int_ranged input" and "window_fits input spatialSigma"
    and "int b < batchCount input" and "int c < channelCount input"
    and "in_box (spatialDimensionSizes input) homeIndex"
    and "in_box (kernelSize input spatialSigma) kernelIndex"
  shows "(\<forall>i < spatialDimensionCount input.
            neighbourIndexClamped input spatialSigma homeIndex kernelIndex i =
              (if homeIndex ! i + kernelIndex ! i - halfWindowSize spatialSigma < 0 then 0
               else if spatialDimensionSizes input ! i - 1
                         < homeIndex ! i + kernelIndex ! i - halfWindowSize spatialSigma
                    then spatialDimensionSizes input ! i - 1
               else homeIndex ! i + kernelIndex ! i - halfWindowSize spatialSigma)
            \<and> 0 \<le> neighbourIndexClamped input spatialSigma homeIndex kernelIndex i
            \<and> neighbourIndexClamped input spatialSigma homeIndex kernelIndex i
                \<le> spatialDimensionSizes input ! i - 1)
       \<and> neighbourOffset input spatialSigma (int32 (int b * batchStride input)) homeIndex kernelIndex =
           int b * (t_strides input ! 0)
           + sum_list (map (\<lambda>i. neighbourIndexClamped input spatialSigma homeIndex kernelIndex i
                                  * spatialDimensionStrides input ! i)
                        [0..<spatialDimensionCount input])
       \<and> subscript input
           (neighbourOffset input spatialSigma (int32 (int b * batchStride input)) homeIndex kernelIndex) c =
           int b * (t_strides input ! 0)
           + sum_list (map (\<lambda>i. neighbourIndexClamped input spatialSigma homeIndex kernelIndex i
                                  * spatialDimensionStrides input ! i)
                        [0..<spatialDimensionCount input])
           + int c * (t_strides input ! 1)
       \<and> 0 \<le> subscript input
           (neighbourOffset input spatialSigma (int32 (int b * batchStride input)) homeIndex kernelIndex) c
       \<and> subscript input
           (neighbourOffset input spatialSigma (int32 (int b * batchStride input)) homeIndex kernelIndex) c
           < int (length (h ! t_data input))
       \<and> (\<exists>v. load h (t_data input)
                  (subscript input
                     (neighbourOffset input spatialSigma (int32 (int b * batchStride input))
                        homeIndex kernelIndex) c) = Inr v)"
proof -
  have 1: "\<forall>i < spatialDimensionCount input.
            neighbourIndexClamped input spatialSigma homeIndex kernelIndex i =
              (if homeIndex ! i + kernelIndex ! i - halfWindowSize spatialSigma < 0 then 0
               else if spatialDimensionSizes input ! i - 1
                         < homeIndex ! i + kernelIndex ! i - halfWindowSize spatialSigma
                    then spatialDimensionSizes input ! i - 1
               else homeIndex ! i + kernelIndex ! i - halfWindowSize spatialSigma)
            \<and> 0 \<le> neighbourIndexClamped input spatialSigma homeIndex kernelIndex i
            \<and> neighbourIndexClamped input spatialSigma homeIndex kernelIndex i
                \<le> spatialDimensionSizes input ! i - 1"
  proof (intro allI impI)
    fix i assume i: "i < spatialDimensionCount input"
    have s: "1 \<le> spatialDimensionSizes input ! i" using assms(1) i by (rule tensor_ok_sizes)
    have n: "neighbourIndex spatialSigma homeIndex kernelIndex i =
             homeIndex ! i + kernelIndex ! i - halfWindowSize spatialSigma"
      using assms(1,2,3,6,7) i by (rule neighbourIndex_exact)
    show "neighbourIndexClamped input spatialSigma homeIndex kernelIndex i =
              (if homeIndex ! i + kernelIndex ! i - halfWindowSize spatialSigma < 0 then 0
               else if spatialDimensionSizes input ! i - 1
                         < homeIndex ! i + kernelIndex ! i - halfWindowSize spatialSigma
                    then spatialDimensionSizes input ! i - 1
               else homeIndex ! i + kernelIndex ! i - halfWindowSize spatialSigma)
            \<and> 0 \<le> neighbourIndexClamped input spatialSigma homeIndex kernelIndex i
            \<and> neighbourIndexClamped input spatialSigma homeIndex kernelIndex i
                \<le> spatialDimensionSizes input ! i - 1"
      using s by (simp add: neighbourIndexClamped_def n clamp_limit[OF assms(1,2) i])
  qed
  note 2 = neighbourOffset_wrapped[OF assms(1,2,4), of spatialSigma homeIndex kernelIndex]
  note s = subscript_wrapped[OF assms(1,2,4,5) neighbourIndexClamped_range[OF assms(1,2)] 2]
  have 3: "\<exists>v. load h (t_data input)
                  (subscript input
                     (neighbourOffset input spatialSigma (int32 (int b * batchStride input))
                        homeIndex kernelIndex) c) = Inr v"
    using load_neighbour[OF assms(1,2,4,5)] by blast
  from s(1) have 4: "subscript input
           (neighbourOffset input spatialSigma (int32 (int b * batchStride input)) homeIndex kernelIndex) c =
           int b * (t_strides input ! 0)
           + sum_list (map (\<lambda>i. neighbourIndexClamped input spatialSigma homeIndex kernelIndex i
                                  * spatialDimensionStrides input ! i)
                        [0..<spatialDimensionCount input])
           + int c * (t_strides input ! 1)"
    by (simp only: 2)
  from 1 2 3 4 s(2) s(4) show ?thesis by blast
qed

lemma example_input_ok: "tensor_ok example_heap example_input"
  by (simp add: tensor_ok_def example_heap_def example_input_def max_offset_def)

lemma example_input_ranged: "int_ranged example_input"
  by (simp add: int_ranged_def example_input_def max_offset_def)

lemma example_input_locals:
  "batchCount example_input = 1" "channelCount example_input = 1"
  "batchStride example_input = 5" "channelStride example_input = 5"
  "spatialDimensionCount example_input = 1"
  "spatialDimensionSizes example_input = [5]" "spatialDimensionStrides example_input = [1]"
  by (simp_all add: example_input_def batchCount_def channelCount_def batchStride_def
      channelStride_def spatialDimensionCount_def spatialDimensionSizes_def
      spatialDimensionStrides_def int32_def)

lemma example_window_fits: "window_fits example_input (Fin 1)"
  by (simp add: window_fits_def windowSize_1 example_input_locals)

theorem neighbour_clamped_into_bounds_witness:
  "tensor_ok example_heap example_input
   \<and> int_ranged example_input
   \<and> window_fits example_input (Fin 1)
   \<and> in_box (spatialDimensionSizes example_input) [0]
   \<and> in_box (spatialDimensionSizes example_input) [4]
   \<and> in_box (kernelSize example_input (Fin 1)) [0]
   \<and> in_box (kernelSize example_input (Fin 1)) [2]
   \<and> neighbourIndex (Fin 1) [0] [0] 0 = - 1
   \<and> neighbourIndexClamped example_input (Fin 1) [0] [0] 0 = 0
   \<and> neighbourIndex (Fin 1) [4] [2] 0 = 5
   \<and> neighbourIndexClamped example_input (Fin 1) [4] [2] 0 = 4
   \<and> subscript example_input
        (neighbourOffset example_input (Fin 1) (int32 (int 0 * batchStride example_input)) [4] [2]) 0 = 4"
proof -
  have b: "int 0 < batchCount example_input" and c: "int 0 < channelCount example_input"
    by (simp_all add: example_input_locals)
  have h0: "in_box (spatialDimensionSizes example_input) [0]"
    and h4: "in_box (spatialDimensionSizes example_input) [4]"
    by (simp_all add: in_box_def example_input_locals)
  have k0: "in_box (kernelSize example_input (Fin 1)) [0]"
    and k2: "in_box (kernelSize example_input (Fin 1)) [2]"
    by (simp_all add: in_box_def kernelSize_def example_input_locals windowSize_1)
  note lo = neighbour_clamped_into_bounds[OF example_input_ok example_input_ranged
      example_window_fits b c h0 k0]
  note hi = neighbour_clamped_into_bounds[OF example_input_ok example_input_ranged
      example_window_fits b c h4 k2]
  from lo have 1: "neighbourIndexClamped example_input (Fin 1) [0] [0] 0 = 0"
    by (simp add: example_input_locals halfWindowSize_1)
  from hi have 3: "neighbourIndexClamped example_input (Fin 1) [4] [2] 0 = 4"
    by (simp add: example_input_locals halfWindowSize_1)
  from hi 3 have 4: "subscript example_input
        (neighbourOffset example_input (Fin 1) (int32 (int 0 * batchStride example_input)) [4] [2]) 0 = 4"
    by (simp add: example_input_locals subscript_def int32_def)
  show ?thesis
  proof (intro conjI)
    show "tensor_ok example_heap example_input" by (rule example_input_ok)
    show "int_ranged example_input" by (rule example_input_ranged)
    show "window_fits example_input (Fin 1)" by (rule example_window_fits)
    show "in_box (spatialDimensionSizes example_input) [0]" by (rule h0)
    show "in_box (spatialDimensionSizes example_input) [4]" by (rule h4)
    show "in_box (kernelSize example_input (Fin 1)) [0]" by (rule k0)
    show "in_box (kernelSize example_input (Fin 1)) [2]" by (rule k2)
    show "neighbourIndex (Fin 1) [0] [0] 0 = - 1"
      by (simp add: neighbourIndex_def halfWindowSize_1 int32_def)
    show "neighbourIndexClamped example_input (Fin 1) [0] [0] 0 = 0" by (rule 1)
    show "neighbourIndex (Fin 1) [4] [2] 0 = 5"
      by (simp add: neighbourIndex_def halfWindowSize_1 int32_def)
    show "neighbourIndexClamped example_input (Fin 1) [4] [2] 0 = 4" by (rule 3)
    show "subscript example_input
        (neighbourOffset example_input (Fin 1) (int32 (int 0 * batchStride example_input)) [4] [2]) 0 = 4"
      by (rule 4)
  qed
qed

subsection \<open>The window loop in closed form\<close>

lemma for_each_Inr:
  "(\<And>i s. i \<in> set xs \<Longrightarrow> f i s = Inr (g i s)) \<Longrightarrow>
   for_each xs f s = Inr (foldl (\<lambda>s i. g i s) s xs)"
  by (induction xs arbitrary: s) simp_all

lemma for_each_foldl_inv:
  assumes "\<And>k s. k \<in> set ks \<Longrightarrow> I s \<Longrightarrow> f k s = Inr (g s k) \<and> I (g s k)" and "I s"
  shows "for_each ks f s = Inr (foldl g s ks) \<and> I (foldl g s ks)"
  using assms
proof (induction ks arbitrary: s)
  case Nil
  then show ?case by simp
next
  case (Cons k ks)
  from Cons.prems(1)[of k s] Cons.prems(2) have 1: "f k s = Inr (g s k)" "I (g s k)" by simp_all
  have "for_each ks f (g s k) = Inr (foldl g (g s k) ks) \<and> I (foldl g (g s k) ks)"
    using Cons.prems(1) 1(2) by (intro Cons.IH) simp_all
  with 1 show ?case by simp
qed

lemma for_each_opt_Some:
  "for_each_opt ks (\<lambda>k s. Some (f k s)) s = Some (for_each ks f s)"
proof (induction ks arbitrary: s)
  case Nil
  then show ?case by simp
next
  case (Cons k ks)
  then show ?case by (cases "f k s") simp_all
qed

lemma foldl_update_all:
  "n \<le> length vs \<Longrightarrow>
   foldl (\<lambda>vs i. vs[i := g i (vs ! i)]) vs [0..<n] =
   map (\<lambda>c. if c < n then g c (vs ! c) else vs ! c) [0..<length vs]"
proof (induction n)
  case 0
  show ?case by (simp add: map_nth)
next
  case (Suc n)
  then have IH: "foldl (\<lambda>vs i. vs[i := g i (vs ! i)]) vs [0..<n] =
     map (\<lambda>c. if c < n then g c (vs ! c) else vs ! c) [0..<length vs]" and n: "n < length vs"
    by simp_all
  show ?case
    by (rule nth_equalityI) (use n in \<open>auto simp: IH nth_list_update less_Suc_eq\<close>)
qed

lemma load_home_value:
  assumes "tensor_ok h input" and "int_ranged input"
    and "int b < batchCount input" and "int c < channelCount input"
    and "in_box (spatialDimensionSizes input) homeIndex"
  shows "load h (t_data input)
           (subscript input (homeOffset input (int32 (int b * batchStride input)) homeIndex) c) =
         Inr (home_value h input b homeIndex c)"
  using load_home[OF assms] by (simp add: home_value_def)

lemma load_neighbour_value:
  assumes "tensor_ok h input" and "int_ranged input"
    and "int b < batchCount input" and "int c < channelCount input"
  shows "load h (t_data input)
           (subscript input
              (neighbourOffset input spatialSigma (int32 (int b * batchStride input))
                 homeIndex kernelIndex) c) =
         Inr (neighbour_value h input spatialSigma b homeIndex kernelIndex c)"
  using load_neighbour[OF assms] by (simp add: neighbour_value_def)

lemma colorDistanceSquared_closed:
  assumes "tensor_ok h input" and "int_ranged input" and "int b < batchCount input"
    and "in_box (spatialDimensionSizes input) homeIndex"
  shows "colorDistanceSquared h input
           (homeOffset input (int32 (int b * batchStride input)) homeIndex)
           (neighbourOffset input spatialSigma (int32 (int b * batchStride input)) homeIndex kernelIndex) =
         Inr (foldl (\<lambda>acc c.
                    fadd acc
                      (fmul (fsub (home_value h input b homeIndex c)
                                  (neighbour_value h input spatialSigma b homeIndex kernelIndex c))
                            (fsub (home_value h input b homeIndex c)
                                  (neighbour_value h input spatialSigma b homeIndex kernelIndex c))))
             (Fin 0) [0..<nat (channelCount input)])"
  unfolding colorDistanceSquared_def
proof (rule for_each_Inr)
  fix c acc assume "c \<in> set [0..<nat (channelCount input)]"
  then have c: "int c < channelCount input" by simp
  show "(case load h (t_data input)
           (subscript input (homeOffset input (int32 (int b * batchStride input)) homeIndex) c) of
          Inl e \<Rightarrow> Inl e
        | Inr a \<Rightarrow>
            (case load h (t_data input)
               (subscript input
                  (neighbourOffset input spatialSigma (int32 (int b * batchStride input))
                     homeIndex kernelIndex) c) of
               Inl e \<Rightarrow> Inl e
             | Inr b \<Rightarrow> let diff = fsub a b in Inr (fadd acc (fmul diff diff)))) =
        Inr (fadd acc
               (fmul (fsub (home_value h input b homeIndex c)
                           (neighbour_value h input spatialSigma b homeIndex kernelIndex c))
                     (fsub (home_value h input b homeIndex c)
                           (neighbour_value h input spatialSigma b homeIndex kernelIndex c))))"
    by (simp add: load_home_value[OF assms(1,2,3) c assms(4)]
        load_neighbour_value[OF assms(1,2,3) c] Let_def)
qed

lemma spatialWeight_closed:
  assumes "in_box (kernelSize input spatialSigma) kernelIndex"
  shows "spatialWeight input spatialSigma kernelIndex =
         Inr (foldl (\<lambda>w i. fmul w (gaussianKernel spatialSigma ! nat (kernelIndex ! i))) (Fin 1)
                [0..<spatialDimensionCount input])"
  unfolding spatialWeight_def
proof (rule for_each_Inr)
  fix i w assume "i \<in> set [0..<spatialDimensionCount input]"
  then have i: "i < length (kernelSize input spatialSigma)" by simp
  from in_box_nth[OF assms this] i
  have "0 \<le> kernelIndex ! i \<and> kernelIndex ! i < windowSize spatialSigma"
    by (simp add: kernelSize_def)
  then show "(case at_index (gaussianKernel spatialSigma) (kernelIndex ! i) of
                Inl e \<Rightarrow> Inl e | Inr g \<Rightarrow> Inr (fmul w g)) =
             Inr (fmul w (gaussianKernel spatialSigma ! nat (kernelIndex ! i)))"
    by (simp add: at_index_def)
qed

lemma totalWeight_closed:
  assumes "tensor_ok h input" and "int_ranged input" and "int b < batchCount input"
    and "in_box (spatialDimensionSizes input) homeIndex"
    and "in_box (kernelSize input spatialSigma) kernelIndex"
  shows "totalWeight h input spatialSigma colorSigma
           (homeOffset input (int32 (int b * batchStride input)) homeIndex)
           (neighbourOffset input spatialSigma (int32 (int b * batchStride input)) homeIndex kernelIndex)
           kernelIndex =
         Inr (weight h input spatialSigma colorSigma b homeIndex kernelIndex)"
  unfolding totalWeight_def
  by (simp add: colorDistanceSquared_closed[OF assms(1-4)] spatialWeight_closed[OF assms(5)]
      weight_def)

lemma aggregate_closed:
  assumes "tensor_ok h input" and "int_ranged input" and "int b < batchCount input"
    and "length valueSum = nat (channelCount input)"
  shows "aggregate h input
           (neighbourOffset input spatialSigma (int32 (int b * batchStride input)) homeIndex kernelIndex)
           tw valueSum =
         Inr (map (\<lambda>c. fadd (valueSum ! c)
                        (fmul (neighbour_value h input spatialSigma b homeIndex kernelIndex c) tw))
                [0..<nat (channelCount input)])"
proof -
  let ?g = "\<lambda>c v. fadd v (fmul (neighbour_value h input spatialSigma b homeIndex kernelIndex c) tw)"
  have "aggregate h input
           (neighbourOffset input spatialSigma (int32 (int b * batchStride input)) homeIndex kernelIndex)
           tw valueSum =
        Inr (foldl (\<lambda>vs i. vs[i := ?g i (vs ! i)]) valueSum [0..<nat (channelCount input)])"
    unfolding aggregate_def
  proof (rule for_each_Inr)
    fix c vs assume "c \<in> set [0..<nat (channelCount input)]"
    then have c: "int c < channelCount input" by simp
    show "(case load h (t_data input)
             (subscript input
                (neighbourOffset input spatialSigma (int32 (int b * batchStride input))
                   homeIndex kernelIndex) c) of
            Inl e \<Rightarrow> Inl e
          | Inr v \<Rightarrow> Inr (vs[c := fadd (vs ! c) (fmul v tw)])) = Inr (vs[c := ?g c (vs ! c)])"
      by (simp add: load_neighbour_value[OF assms(1,2,3) c])
  qed
  also have "foldl (\<lambda>vs i. vs[i := ?g i (vs ! i)]) valueSum [0..<nat (channelCount input)] =
    map (\<lambda>c. ?g c (valueSum ! c)) [0..<nat (channelCount input)]"
    using foldl_update_all[of "nat (channelCount input)" valueSum ?g] assms(4) by simp
  finally show ?thesis .
qed

lemma kernel_body_closed:
  assumes "tensor_ok h input" and "int_ranged input" and "int b < batchCount input"
    and "in_box (spatialDimensionSizes input) homeIndex"
    and "in_box (kernelSize input spatialSigma) kernelIndex"
    and "length (fst acc) = nat (channelCount input)"
  shows "kernel_body h input spatialSigma colorSigma (int32 (int b * batchStride input)) homeIndex
           kernelIndex acc =
         Inr (window_step h input spatialSigma colorSigma b homeIndex acc kernelIndex)"
  unfolding kernel_body_def window_step_def
  by (simp add: totalWeight_closed[OF assms(1-5)] aggregate_closed[OF assms(1,2,3,6)])

lemma length_window_step [simp]:
  "length (fst (window_step h input spatialSigma colorSigma b homeIndex acc kernelIndex)) =
   nat (channelCount input)"
  by (simp add: window_step_def)

lemma set_window:
  assumes "1 \<le> windowSize spatialSigma"
  shows "set (window input spatialSigma) = {k. in_box (kernelSize input spatialSigma) k}"
proof -
  have pos: "\<forall>n \<in> set (kernelSize input spatialSigma). 1 \<le> n"
    using assms by (simp add: kernelSize_def)
  have "set (window input spatialSigma) =
        {k. list_all2 (\<lambda>x m. 0 \<le> x \<and> x < int m) k (radices (kernelSize input spatialSigma))}"
    unfolding window_def by (rule set_mixed_radix)
  also have "\<dots> = {k. in_box (kernelSize input spatialSigma) k}"
    using in_box_radices[OF pos] by (simp add: radices_pos[OF pos])
  finally show ?thesis .
qed

lemma spatialDimensionCount_pos: "tensor_ok h input \<Longrightarrow> 1 \<le> spatialDimensionCount input"
  by (auto simp: tensor_ok_def spatialDimensionCount_def)

lemma window_loop_enum:
  assumes "1 \<le> spatialDimensionCount input"
  shows "(case Indexer_ctor (spatialDimensionCount input) (kernelSize input spatialSigma) of
            Inl e \<Rightarrow> Some (Inl e)
          | Inr kernelIndex \<Rightarrow> do_while body kernelIndex acc) =
         for_each_opt (window input spatialSigma) body acc"
proof -
  have r: "\<forall>s \<in> set (kernelSize input spatialSigma). s \<le> 2147483647"
    using windowSize_range[of spatialSigma] by (simp add: kernelSize_def)
  have "do_while body (Indexer_new (spatialDimensionCount input) (kernelSize input spatialSigma)) acc =
        for_each_opt (window input spatialSigma) body acc"
    unfolding window_def by (rule do_while_Indexer_new[OF _ r]) simp
  then show ?thesis using assms by (simp add: Indexer_ctor_def)
qed

text \<open>
  On a valid input that fits the \<^verbatim>\<open>int\<close> variables and a window of at least one
  element, the window loop of a home coordinate of the box returns the two aggregates.
\<close>

lemma window_pass_closed:
  assumes "tensor_ok h input" and "int_ranged input" and "int b < batchCount input"
    and "in_box (spatialDimensionSizes input) homeIndex"
    and "1 \<le> windowSize spatialSigma"
  shows "window_pass h input spatialSigma colorSigma (int32 (int b * batchStride input)) homeIndex =
         Some (Inr (window_sums h input spatialSigma colorSigma b homeIndex))"
proof -
  let ?body = "kernel_body h input spatialSigma colorSigma (int32 (int b * batchStride input)) homeIndex"
  let ?n = "nat (channelCount input)"
  have "window_pass h input spatialSigma colorSigma (int32 (int b * batchStride input)) homeIndex =
        for_each_opt (window input spatialSigma) (\<lambda>k acc. Some (?body k acc))
          (replicate ?n (Fin 0), Fin 0)"
    unfolding window_pass_def
    by (rule window_loop_enum[OF spatialDimensionCount_pos[OF assms(1)]])
  also have "\<dots> = Some (for_each (window input spatialSigma) ?body (replicate ?n (Fin 0), Fin 0))"
    by (rule for_each_opt_Some)
  also have "for_each (window input spatialSigma) ?body (replicate ?n (Fin 0), Fin 0) =
     Inr (foldl (window_step h input spatialSigma colorSigma b homeIndex)
            (replicate ?n (Fin 0), Fin 0) (window input spatialSigma))"
  proof -
    have "for_each (window input spatialSigma) ?body (replicate ?n (Fin 0), Fin 0) =
            Inr (foldl (window_step h input spatialSigma colorSigma b homeIndex)
                   (replicate ?n (Fin 0), Fin 0) (window input spatialSigma))
          \<and> length (fst (foldl (window_step h input spatialSigma colorSigma b homeIndex)
                   (replicate ?n (Fin 0), Fin 0) (window input spatialSigma))) = ?n"
    proof (rule for_each_foldl_inv[where I = "\<lambda>acc. length (fst acc) = ?n"])
      fix k and acc :: "f32 list \<times> f32"
      assume "k \<in> set (window input spatialSigma)" and l: "length (fst acc) = ?n"
      then have "in_box (kernelSize input spatialSigma) k" by (simp add: set_window[OF assms(5)])
      from kernel_body_closed[OF assms(1-4) this l]
      show "?body k acc = Inr (window_step h input spatialSigma colorSigma b homeIndex acc k)
            \<and> length (fst (window_step h input spatialSigma colorSigma b homeIndex acc k)) = ?n"
        by simp
    qed simp
    then show ?thesis by simp
  qed
  finally show ?thesis by (simp add: window_sums_def)
qed

subsection \<open>Dense inputs\<close>

lemma sum_list_insort_key:
  "sum_list (map f (insort_key k x xs)) = (f x :: int) + sum_list (map f xs)"
  by (induction xs) simp_all

lemma sum_list_sort_key: "sum_list (map f (sort_key k xs)) = (sum_list (map f xs) :: int)"
  by (induction xs) (simp_all add: sum_list_insort_key)

lemma prod_list_insort_key:
  "prod_list (map f (insort_key k x xs)) = (f x :: int) * prod_list (map f xs)"
  by (induction xs) simp_all

lemma prod_list_sort_key: "prod_list (map f (sort_key k xs)) = (prod_list (map f xs) :: int)"
  by (induction xs) (simp_all add: prod_list_insort_key)

lemma prod_list_map_filter:
  "(\<And>x. x \<in> set xs \<Longrightarrow> \<not> P x \<Longrightarrow> f x = (1::int)) \<Longrightarrow>
   prod_list (map f (filter P xs)) = prod_list (map f xs)"
  by (induction xs) simp_all

lemma dense_chain_sum:
  "dense_chain require_stride rs \<Longrightarrow>
   sum_list (map (\<lambda>(n, s). (n - 1) * s) rs) = require_stride * prod_list (map fst rs) - require_stride"
proof (induction rs arbitrary: require_stride)
  case Nil
  then show ?case by simp
next
  case (Cons p rs)
  obtain n s where p: "p = (n, s)" by (cases p)
  from Cons.prems p have s: "s = require_stride" and c: "dense_chain (require_stride * n) rs"
    by simp_all
  from Cons.IH[OF c] show ?case by (simp add: p s algebra_simps)
qed

text \<open>
  On a valid input that is non-overlapping and dense the largest offset is the number of
  elements less one.
\<close>

lemma dense_max_offset:
  assumes ok: "tensor_ok h input" and dense: "is_non_overlapping_and_dense input"
  shows "max_offset input = numel input - 1"
proof -
  let ?ps = "zip (t_sizes input) (t_strides input)"
  let ?P = "\<lambda>(n :: int, s :: int). 2 \<le> n"
  let ?f = "\<lambda>(n :: int, s :: int). (n - 1) * s"
  from ok have l: "length (t_strides input) = length (t_sizes input)"
    and pos: "\<forall>n \<in> set (t_sizes input). 1 \<le> n" by (simp_all add: tensor_ok_def)
  have one: "\<And>p. p \<in> set ?ps \<Longrightarrow> \<not> ?P p \<Longrightarrow> fst p = 1"
  proof -
    fix p assume in_ps: "p \<in> set ?ps" and np: "\<not> ?P p"
    obtain n s where p: "p = (n, s)" by (cases p)
    from in_ps have "n \<in> set (t_sizes input)" unfolding p by (rule set_zip_leftD)
    with pos have "1 \<le> n" by simp
    with np show "fst p = 1" by (simp add: p)
  qed
  have "max_offset input = sum_list (map ?f ?ps)" by (simp add: max_offset_def)
  also have "\<dots> = sum_list (map ?f (filter ?P ?ps))"
  proof (rule sum_list_map_filter[symmetric])
    fix p assume "p \<in> set ?ps" and "\<not> ?P p"
    from one[OF this] show "?f p = 0" by (cases p) simp
  qed
  also have "\<dots> = sum_list (map ?f (sort_key snd (filter ?P ?ps)))"
    by (rule sum_list_sort_key[symmetric])
  also have "\<dots> = 1 * prod_list (map fst (sort_key snd (filter ?P ?ps))) - 1"
    using dense unfolding is_non_overlapping_and_dense_def by (rule dense_chain_sum)
  also have "prod_list (map fst (sort_key snd (filter ?P ?ps))) = prod_list (map fst (filter ?P ?ps))"
    by (rule prod_list_sort_key)
  also have "\<dots> = prod_list (map fst ?ps)"
    by (rule prod_list_map_filter) (rule one)
  also have "map fst ?ps = t_sizes input" using l by simp
  finally show ?thesis by (simp add: numel_def)
qed

lemma zeros_like_data [simp]: "t_data (snd (zeros_like h input)) = length h"
  by (simp add: zeros_like_def)

lemma zeros_like_dense:
  "is_non_overlapping_and_dense input \<Longrightarrow>
   snd (zeros_like h input) = input\<lparr>t_data := length h\<rparr>"
  by (simp add: zeros_like_def)

subsection \<open>The heap during a call\<close>

lemma for_each_preserves:
  assumes "I s" and "\<And>i s. i \<in> set xs \<Longrightarrow> I s \<Longrightarrow> \<exists>s'. f i s = Inr s' \<and> I s'"
  shows "\<exists>s'. for_each xs f s = Inr s' \<and> I s'"
  using assms
proof (induction xs arbitrary: s)
  case Nil
  then show ?case by simp
next
  case (Cons i xs)
  from Cons.prems obtain s1 where s1: "f i s = Inr s1" "I s1" by (meson list.set_intros(1))
  from Cons.IH[OF s1(2)] Cons.prems(2) obtain s' where "for_each xs f s1 = Inr s'" "I s'"
    by (meson list.set_intros(2))
  with s1 show ?case by simp
qed

lemma for_each_opt_preserves:
  assumes "I s" and "\<And>i s. i \<in> set xs \<Longrightarrow> I s \<Longrightarrow> \<exists>s'. f i s = Some (Inr s') \<and> I s'"
  shows "\<exists>s'. for_each_opt xs f s = Some (Inr s') \<and> I s'"
  using assms
proof (induction xs arbitrary: s)
  case Nil
  then show ?case by simp
next
  case (Cons i xs)
  from Cons.prems obtain s1 where s1: "f i s = Some (Inr s1)" "I s1" by (meson list.set_intros(1))
  from Cons.IH[OF s1(2)] Cons.prems(2) obtain s' where "for_each_opt xs f s1 = Some (Inr s')" "I s'"
    by (meson list.set_intros(2))
  with s1 show ?case by simp
qed

lemma output_heap_zeros_like:
  "output_heap h (nat (numel input)) (fst (zeros_like h input))"
  by (simp add: output_heap_def zeros_like_def)

lemma output_heap_nth:
  "output_heap h0 n h \<Longrightarrow> p < length h0 \<Longrightarrow> h ! p = h0 ! p"
  by (metis nth_take output_heap_def)

lemma tensor_ok_output_heap:
  assumes "tensor_ok h0 input" and "output_heap h0 n h"
  shows "tensor_ok h input"
proof -
  from assms(1) have p: "t_data input < length h0" by (simp add: tensor_ok_def)
  from output_heap_nth[OF assms(2) p] assms show ?thesis
    by (simp add: tensor_ok_def output_heap_def)
qed

lemma store_output_heap:
  assumes "output_heap h0 n h" and "0 \<le> off" and "off < int n"
  shows "\<exists>h'. store h (length h0) off v = Inr h' \<and> output_heap h0 n h'
             \<and> h' ! length h0 = (h ! length h0)[nat off := v]"
  using assms by (simp add: store_def output_heap_def)

lemma spatial_sizes_pos:
  "tensor_ok h input \<Longrightarrow> \<forall>n \<in> set (spatialDimensionSizes input). 1 \<le> n"
  by (auto simp: tensor_ok_def spatialDimensionSizes_def dest: in_set_dropD)

lemma spatial_sizes_ranged:
  "int_ranged input \<Longrightarrow> \<forall>n \<in> set (spatialDimensionSizes input). n \<le> 2147483647"
  by (auto simp: int_ranged_def spatialDimensionSizes_def dest: in_set_dropD)

lemma set_home_coordinates:
  assumes "tensor_ok h input"
  shows "set (home_coordinates input) = {index. in_box (spatialDimensionSizes input) index}"
proof -
  note pos = spatial_sizes_pos[OF assms]
  have "set (home_coordinates input) =
        {k. list_all2 (\<lambda>x m. 0 \<le> x \<and> x < int m) k (radices (spatialDimensionSizes input))}"
    unfolding home_coordinates_def by (rule set_mixed_radix)
  also have "\<dots> = {k. in_box (spatialDimensionSizes input) k}"
    using in_box_radices[OF pos] by (simp add: radices_pos[OF pos])
  finally show ?thesis .
qed

lemma batch_body_for_each:
  assumes "tensor_ok h0 input" and "int_ranged input"
  shows "batch_body input outputData spatialSigma colorSigma b h =
   for_each_opt (home_coordinates input)
     (home_body input outputData spatialSigma colorSigma (int32 (int b * batchStride input))) h"
proof -
  have "do_while (home_body input outputData spatialSigma colorSigma (int32 (int b * batchStride input)))
          (Indexer_new (spatialDimensionCount input) (spatialDimensionSizes input)) h =
        for_each_opt (home_coordinates input)
          (home_body input outputData spatialSigma colorSigma (int32 (int b * batchStride input))) h"
    unfolding home_coordinates_def
    by (rule do_while_Indexer_new[OF _ spatial_sizes_ranged[OF assms(2)]]) simp
  then show ?thesis
    using spatialDimensionCount_pos[OF assms(1)]
    by (simp add: batch_body_def Let_def Indexer_ctor_def)
qed

lemma write_output_preserves:
  assumes ok: "tensor_ok h0 input" and rg: "int_ranged input" and b: "int b < batchCount input"
    and home: "in_box (spatialDimensionSizes input) homeIndex"
    and n: "max_offset input < int n"
    and oh: "output_heap h0 n h"
  shows "\<exists>h'. write_output input (length h0)
                 (homeOffset input (int32 (int b * batchStride input)) homeIndex) valueSum weightSum h
               = Inr h'
             \<and> output_heap h0 n h'"
  unfolding write_output_def
proof (rule for_each_preserves[where I = "output_heap h0 n"])
  show "output_heap h0 n h" by (rule oh)
next
  fix c h'
  assume "c \<in> set [0..<nat (channelCount input)]" and oh': "output_heap h0 n h'"
  then have c: "int c < channelCount input" by simp
  note s = subscript_wrapped[OF ok rg b c in_box_bounds[OF home] homeOffset_wrapped[OF ok rg b home]]
  from s(3) n have "subscript input (homeOffset input (int32 (int b * batchStride input)) homeIndex) c
                    < int n" by simp
  from store_output_heap[OF oh' s(2) this]
  show "\<exists>s'. store h' (length h0)
               (subscript input (homeOffset input (int32 (int b * batchStride input)) homeIndex) c)
               (fdiv (valueSum ! c) weightSum) = Inr s'
            \<and> output_heap h0 n s'"
    by blast
qed

lemma home_body_preserves:
  assumes ok: "tensor_ok h0 input" and rg: "int_ranged input" and b: "int b < batchCount input"
    and home: "in_box (spatialDimensionSizes input) homeIndex"
    and ws: "1 \<le> windowSize spatialSigma"
    and n: "max_offset input < int n"
    and oh: "output_heap h0 n h"
  shows "\<exists>h'. home_body input (length h0) spatialSigma colorSigma
                 (int32 (int b * batchStride input)) homeIndex h = Some (Inr h')
             \<and> output_heap h0 n h'"
proof -
  have ok': "tensor_ok h input" using ok oh by (rule tensor_ok_output_heap)
  obtain vs w where sums: "window_sums h input spatialSigma colorSigma b homeIndex = (vs, w)"
    by (cases "window_sums h input spatialSigma colorSigma b homeIndex")
  show ?thesis
    unfolding home_body_def
    using write_output_preserves[OF ok rg b home n oh, of vs w]
    by (simp add: window_pass_closed[OF ok' rg b home ws] sums)
qed

lemma batch_body_preserves:
  assumes ok: "tensor_ok h0 input" and rg: "int_ranged input" and b: "int b < batchCount input"
    and ws: "1 \<le> windowSize spatialSigma"
    and n: "max_offset input < int n"
    and oh: "output_heap h0 n h"
  shows "\<exists>h'. batch_body input (length h0) spatialSigma colorSigma b h = Some (Inr h')
             \<and> output_heap h0 n h'"
  unfolding batch_body_for_each[OF ok rg]
proof (rule for_each_opt_preserves[where I = "output_heap h0 n"])
  show "output_heap h0 n h" by (rule oh)
next
  fix homeIndex h'
  assume "homeIndex \<in> set (home_coordinates input)" and oh': "output_heap h0 n h'"
  then have "in_box (spatialDimensionSizes input) homeIndex"
    by (simp add: set_home_coordinates[OF ok])
  from home_body_preserves[OF ok rg b this ws n oh']
  show "\<exists>s'. home_body input (length h0) spatialSigma colorSigma
                 (int32 (int b * batchStride input)) homeIndex h' = Some (Inr s')
             \<and> output_heap h0 n s'" .
qed

lemma BilateralFilterCpu_unfold:
  assumes "tensor_ok h input" and "int_ranged input" and "1 \<le> windowSize spatialSigma"
  shows "BilateralFilterCpu h input spatialSigma colorSigma =
     (case for_each_opt [0..<nat (batchCount input)]
             (batch_body input (length h) spatialSigma colorSigma) (fst (zeros_like h input)) of
        None \<Rightarrow> None
      | Some (Inl e) \<Rightarrow> Some (Inl e)
      | Some (Inr h2) \<Rightarrow> Some (Inr (h2, snd (zeros_like h input))))"
  using assms locals_ranged(6)[OF assms(1,2)]
  by (simp add: BilateralFilterCpu_def case_prod_beta tensor_ok_def)

lemma BilateralFilterCpu_succeeds:
  assumes ok: "tensor_ok h input" and rg: "int_ranged input"
    and dense: "is_non_overlapping_and_dense input"
    and ws: "1 \<le> windowSize spatialSigma"
  shows "\<exists>h'. BilateralFilterCpu h input spatialSigma colorSigma
                 = Some (Inr (h', input\<lparr>t_data := length h\<rparr>))
             \<and> output_heap h (nat (numel input)) h'"
proof -
  have n: "max_offset input < int (nat (numel input))"
  proof -
    from ok have "1 \<le> numel input"
      unfolding numel_def by (intro prod_list_pos) (simp add: tensor_ok_def)
    with dense_max_offset[OF ok dense] show ?thesis by simp
  qed
  have "\<exists>h'. for_each_opt [0..<nat (batchCount input)]
             (batch_body input (length h) spatialSigma colorSigma) (fst (zeros_like h input))
            = Some (Inr h') \<and> output_heap h (nat (numel input)) h'"
  proof (rule for_each_opt_preserves[where I = "output_heap h (nat (numel input))"])
    show "output_heap h (nat (numel input)) (fst (zeros_like h input))"
      by (rule output_heap_zeros_like)
  next
    fix b h'
    assume "b \<in> set [0..<nat (batchCount input)]"
      and oh': "output_heap h (nat (numel input)) h'"
    then have "int b < batchCount input" by simp
    from batch_body_preserves[OF ok rg this ws n oh']
    show "\<exists>s'. batch_body input (length h) spatialSigma colorSigma b h' = Some (Inr s')
               \<and> output_heap h (nat (numel input)) s'" .
  qed
  then show ?thesis
    using BilateralFilterCpu_unfold[OF ok rg ws, of colorSigma] zeros_like_dense[OF dense, of h]
    by auto
qed

subsection \<open>The input is left alone and the output is fresh\<close>

text \<open>A positive single-precision number is at least the least one, 2 to the power -149.\<close>

lemma is_f32_pos_ge:
  assumes "is_f32 s" and "0 < s"
  shows "pow2 (- 149) \<le> s"
proof -
  let ?n = "round_half_even (s / ulp s)"
  from assms have e: "s = of_int ?n * ulp s" by (simp add: is_f32_def rnd_def)
  have "0 < ?n"
  proof (rule ccontr)
    assume "\<not> 0 < ?n"
    then have "(of_int ?n :: real) \<le> 0" by simp
    then have "of_int ?n * ulp s \<le> 0" by (simp add: mult_le_0_iff)
    with e assms(2) show False by simp
  qed
  then have "(1::real) \<le> of_int ?n" by simp
  then have "1 * ulp s \<le> of_int ?n * ulp s" by (intro mult_right_mono) simp_all
  with e have "ulp s \<le> s" by simp
  moreover have "pow2 (- 149) \<le> ulp s"
    unfolding ulp_def using exponent_ge[of s] by (intro pow2_mono) simp
  ultimately show ?thesis by simp
qed

lemma windowSize_float_pos:
  assumes "is_f32 s" and "0 < s" and "s \<le> 4194304"
  shows "1 \<le> windowSize (Fin s)"
proof -
  have "rnd (3 * s) \<le> rnd (of_int 12582912)" using assms(3) by (intro rnd_mono) simp
  also have "\<dots> = 12582912" using rnd_of_int[of 12582912] by simp
  finally have r: "rnd (3 * s) \<le> 12582912" .
  have w: "windowSize (Fin s) = \<lceil>rnd (3 * s)\<rceil>"
    using assms(2) r by (intro windowSize_Fin) simp_all
  have "pow2 (- 149) \<le> 3 * s" using is_f32_pos_ge[OF assms(1,2)] assms(2) by simp
  then have "rnd (pow2 (- 149)) \<le> rnd (3 * s)" by (rule rnd_mono)
  moreover have "rnd (pow2 (- 149)) = pow2 (- 149)" using rnd_exact[of "pow2 (- 149)" 1 "- 149"] by simp
  ultimately have "0 < rnd (3 * s)" using pow2_pos[of "- 149"] by linarith
  then show ?thesis unfolding w by (simp add: less_ceiling_iff[symmetric] int_one_le_iff_zero_less)
qed

text \<open>
  C8, the counterexample. The valid input of the examples and the finite, strictly
  positive spatialSigma 17179869184, 2 to the power 34. Three times it is beyond the
  range of \<^verbatim>\<open>int\<close>: the conversion gives a negative window size, \<^verbatim>\<open>new float[windowSize]\<close>
  throws and the call returns no output array.
\<close>

theorem large_sigma_counterexample:
  "tensor_ok example_heap example_input
   \<and> int_ranged example_input
   \<and> is_non_overlapping_and_dense example_input
   \<and> is_f32 17179869184 \<and> (0::real) < 17179869184
   \<and> windowSize (Fin 17179869184) = - 2147483648
   \<and> BilateralFilterCpu example_heap example_input (Fin 17179869184) (Fin 1) = Some (Inl BadAlloc)"
proof -
  have f: "is_f32 17179869184"
    using rnd_exact[of 17179869184 1 34] by (simp add: is_f32_def pow2_def)
  have "rnd (3 * 17179869184) = 3 * 17179869184"
    using rnd_exact[of "3 * 17179869184" 3 34] by (simp add: pow2_def)
  then have "round32 51539607552 = Fin 51539607552" by (simp add: round32_def)
  then have w: "windowSize (Fin 17179869184) = - 2147483648"
    by (simp add: windowSize_def)
  have d: "is_non_overlapping_and_dense example_input"
    by (simp add: is_non_overlapping_and_dense_def example_input_def)
  have r: "BilateralFilterCpu example_heap example_input (Fin 17179869184) (Fin 1) = Some (Inl BadAlloc)"
    by (simp add: BilateralFilterCpu_def case_prod_beta w example_input_def)
  from f w d r example_input_ok example_input_ranged show ?thesis by simp
qed

text \<open>
  C8, amended. On a valid input that is non-overlapping and dense and fits the \<^verbatim>\<open>int\<close>
  variables of the function, with a spatialSigma that gives a window of at least one
  element (every single-precision spatialSigma above 0 and at most 4194304 does, by
  \<open>windowSize_float_pos\<close>) and any colorSigma, the call returns. The heap after the call
  is the heap before it followed by one new buffer: every buffer that existed, the
  buffer of the input among them, is unchanged. The output tensor owns the new buffer,
  which is not the buffer of the input and has one cell per element, and it has the
  sizes (so the rank), the strides and the element type of the input, single precision.
\<close>

theorem input_unchanged_output_fresh:
  assumes "tensor_ok h input" and "int_ranged input" and "is_non_overlapping_and_dense input"
    and "1 \<le> windowSize spatialSigma"
  shows "\<exists>h' output.
           BilateralFilterCpu h input spatialSigma colorSigma = Some (Inr (h', output))
           \<and> length h' = Suc (length h) \<and> take (length h) h' = h
           \<and> h' ! t_data input = h ! t_data input
           \<and> t_data output = length h \<and> t_data output \<noteq> t_data input
           \<and> length (h' ! t_data output) = nat (numel input)
           \<and> length (t_sizes output) = length (t_sizes input)
           \<and> t_sizes output = t_sizes input
           \<and> t_strides output = t_strides input
           \<and> t_dtype output = t_dtype input \<and> t_dtype output = Float32"
proof -
  from BilateralFilterCpu_succeeds[OF assms, of colorSigma] obtain h' where
    r: "BilateralFilterCpu h input spatialSigma colorSigma
          = Some (Inr (h', input\<lparr>t_data := length h\<rparr>))"
    and oh: "output_heap h (nat (numel input)) h'" by blast
  from assms(1) have p: "t_data input < length h" and dt: "t_dtype input = Float32"
    by (simp_all add: tensor_ok_def)
  from output_heap_nth[OF oh p] oh p dt r show ?thesis
    by (simp add: output_heap_def)
qed

theorem input_unchanged_output_fresh_witness:
  "tensor_ok example_heap example_input
   \<and> int_ranged example_input
   \<and> is_non_overlapping_and_dense example_input
   \<and> 1 \<le> windowSize (Fin 1)
   \<and> (\<exists>h' output.
       BilateralFilterCpu example_heap example_input (Fin 1) (Fin 1) = Some (Inr (h', output))
       \<and> take 1 h' = example_heap \<and> t_data output = 1 \<and> t_sizes output = [1, 1, 5]
       \<and> t_dtype output = Float32)"
proof -
  have d: "is_non_overlapping_and_dense example_input"
    by (simp add: is_non_overlapping_and_dense_def example_input_def)
  have w: "1 \<le> windowSize (Fin 1)" by (simp add: windowSize_1)
  from input_unchanged_output_fresh[OF example_input_ok example_input_ranged d w, of "Fin 1"]
  obtain h' out where
    "BilateralFilterCpu example_heap example_input (Fin 1) (Fin 1) = Some (Inr (h', out))"
    "take (length example_heap) h' = example_heap" "t_data out = length example_heap"
    "t_sizes out = t_sizes example_input" "t_dtype out = Float32"
    by blast
  then have "\<exists>h' output.
       BilateralFilterCpu example_heap example_input (Fin 1) (Fin 1) = Some (Inr (h', output))
       \<and> take 1 h' = example_heap \<and> t_data output = 1 \<and> t_sizes output = [1, 1, 5]
       \<and> t_dtype output = Float32"
    by (intro exI[of _ h'] exI[of _ out]) (simp add: example_heap_def example_input_def)
  with example_input_ok example_input_ranged d w show ?thesis by blast
qed

subsection \<open>An input of more elements than an \<^verbatim>\<open>int\<close> can count\<close>

lemma upt_2: "[0..<2] = [0, 1]"
  by (simp add: upt_rec)

lemma wide_input_ok: "tensor_ok wide_heap wide_input"
  by (simp add: tensor_ok_def wide_heap_def wide_input_def max_offset_def)

lemma wide_input_dense: "is_non_overlapping_and_dense wide_input"
  by (simp add: is_non_overlapping_and_dense_def wide_input_def)

lemma wide_input_locals:
  "batchCount wide_input = 1" "channelCount wide_input = 1"
  "batchStride wide_input = 0" "channelStride wide_input = 0"
  "spatialDimensionCount wide_input = 2"
  "spatialDimensionSizes wide_input = [2, 2147483648]"
  "spatialDimensionStrides wide_input = [2147483648, 1]"
  "t_data wide_input = 0"
  by (simp_all add: wide_input_def batchCount_def channelCount_def batchStride_def
      channelStride_def spatialDimensionCount_def spatialDimensionSizes_def
      spatialDimensionStrides_def int32_def)

lemma wide_offsets:
  "homeOffset wide_input 0 [0, 0] = 0"
  "neighbourOffset wide_input (Fin 1) 0 [0, 0] [0, 0] = 0"
  "neighbourOffset wide_input (Fin 1) 0 [0, 0] [1, 0] = 0"
  "neighbourOffset wide_input (Fin 1) 0 [0, 0] [2, 0] = - 2147483648"
  "neighbourIndexClamped wide_input (Fin 1) [0, 0] [2, 0] 0 = 1"
  "neighbourIndexClamped wide_input (Fin 1) [0, 0] [2, 0] 1 = 0"
  by (simp_all add: homeOffset_def neighbourOffset_def neighbourIndexClamped_def
      neighbourIndex_def wide_input_locals halfWindowSize_1 upt_2 int32_def)

lemma wide_subscripts:
  "subscript wide_input 0 0 = 0" "subscript wide_input (- 2147483648) 0 = - 2147483648"
  by (simp_all add: subscript_def wide_input_locals int32_def)

lemma wide_loads:
  "load (wide_heap @ hs) 0 0 = Inr (Fin 0)"
  "load (wide_heap @ hs) 0 (- 2147483648) = Inl OutOfBounds"
  by (simp_all add: load_def wide_heap_def)

lemma wide_kernel_body_ok:
  "kernelIndex = [0, 0] \<or> kernelIndex = [1, 0] \<Longrightarrow>
   \<exists>acc'. kernel_body (wide_heap @ hs) wide_input (Fin 1) (Fin 1) 0 [0, 0] kernelIndex acc = Inr acc'"
  by (auto simp: kernel_body_def totalWeight_def colorDistanceSquared_def spatialWeight_def
      aggregate_def wide_offsets wide_subscripts wide_loads wide_input_locals upt_2 at_index_def
      windowSize_1 Let_def)

lemma wide_kernel_body_fails:
  "kernel_body (wide_heap @ hs) wide_input (Fin 1) (Fin 1) 0 [0, 0] [2, 0] acc = Inl OutOfBounds"
  by (simp add: kernel_body_def totalWeight_def colorDistanceSquared_def
      wide_offsets wide_subscripts wide_loads wide_input_locals Let_def)

lemma upt_9: "[0..<9] = [0, 1, 2, 3, 4, 5, 6, 7, 8]"
  by (simp add: upt_rec)

lemma wide_window:
  "window wide_input (Fin 1) =
     [[0, 0], [1, 0], [2, 0], [0, 1], [1, 1], [2, 1], [0, 2], [1, 2], [2, 2]]"
  by (simp add: window_def kernelSize_def wide_input_locals windowSize_1 numeral_2_eq_2 upt_9)

lemma wide_window_pass:
  "window_pass (wide_heap @ hs) wide_input (Fin 1) (Fin 1) 0 [0, 0] = Some (Inl OutOfBounds)"
proof -
  let ?body = "\<lambda>index acc.
     Some (kernel_body (wide_heap @ hs) wide_input (Fin 1) (Fin 1) 0 [0, 0] index acc)"
  let ?acc = "(replicate (nat (channelCount wide_input)) (Fin 0), Fin 0)"
  have e: "window_pass (wide_heap @ hs) wide_input (Fin 1) (Fin 1) 0 [0, 0] =
        for_each_opt (window wide_input (Fin 1)) ?body ?acc"
    unfolding window_pass_def by (rule window_loop_enum) (simp add: wide_input_locals)
  obtain a1 where 1: "kernel_body (wide_heap @ hs) wide_input (Fin 1) (Fin 1) 0 [0, 0] [0, 0] ?acc = Inr a1"
    using wide_kernel_body_ok[of "[0, 0]" hs ?acc] by auto
  obtain a2 where 2: "kernel_body (wide_heap @ hs) wide_input (Fin 1) (Fin 1) 0 [0, 0] [1, 0] a1 = Inr a2"
    using wide_kernel_body_ok[of "[1, 0]" hs a1] by auto
  show ?thesis unfolding e wide_window by (simp add: 1 2 wide_kernel_body_fails)
qed

lemma wide_BilateralFilterCpu:
  "BilateralFilterCpu wide_heap wide_input (Fin 1) (Fin 1) = Some (Inl OutOfBounds)"
proof -
  let ?h1 = "wide_heap @ [replicate (nat (numel wide_input)) (Fin 0)]"
  have hb: "home_body wide_input (length wide_heap) (Fin 1) (Fin 1) 0 [0, 0] ?h1
            = Some (Inl OutOfBounds)"
    by (simp add: home_body_def wide_window_pass)
  have "do_while (home_body wide_input (length wide_heap) (Fin 1) (Fin 1) 0)
          (Indexer_new 2 [2, 2147483648]) ?h1 = Some (Inl OutOfBounds)"
    by (subst do_while.simps) (simp add: Indexer_new_def numeral_2_eq_2 hb[unfolded numeral_2_eq_2])
  then have bb: "batch_body wide_input (length wide_heap) (Fin 1) (Fin 1) 0 ?h1
                 = Some (Inl OutOfBounds)"
    by (simp add: batch_body_def Indexer_ctor_def wide_input_locals int32_def)
  show ?thesis
    by (simp add: BilateralFilterCpu_def zeros_like_def wide_input_dense windowSize_1
        wide_input_locals bb)
      (simp add: wide_input_def)
qed

text \<open>
  C4, the counterexample. A contiguous input of one batch, one channel and spatial
  sizes 2 and 2147483648, all cells zero, with \<open>spatialSigma = 1\<close>. At the home
  coordinate \<open>(0, 0)\<close> and the window coordinate \<open>(2, 0)\<close> the clamped neighbour
  coordinate is \<open>(1, 0)\<close>, inside the box; its offset is 2147483648, which the \<^verbatim>\<open>int\<close>
  variable \<^verbatim>\<open>neighbourOffset\<close> holds as -2147483648. The read at that offset is outside
  the array, and the call ends in that access.
\<close>

theorem neighbour_offset_wraps_counterexample:
  "tensor_ok wide_heap wide_input
   \<and> is_non_overlapping_and_dense wide_input
   \<and> in_box (spatialDimensionSizes wide_input) [0, 0]
   \<and> in_box (kernelSize wide_input (Fin 1)) [2, 0]
   \<and> neighbourIndexClamped wide_input (Fin 1) [0, 0] [2, 0] 0 = 1
   \<and> neighbourIndexClamped wide_input (Fin 1) [0, 0] [2, 0] 1 = 0
   \<and> neighbourOffset wide_input (Fin 1) (int32 (int 0 * batchStride wide_input)) [0, 0] [2, 0]
       = - 2147483648
   \<and> load wide_heap (t_data wide_input)
       (subscript wide_input
          (neighbourOffset wide_input (Fin 1) (int32 (int 0 * batchStride wide_input)) [0, 0] [2, 0]) 0)
       = Inl OutOfBounds
   \<and> BilateralFilterCpu wide_heap wide_input (Fin 1) (Fin 1) = Some (Inl OutOfBounds)"
proof (intro conjI)
  show "tensor_ok wide_heap wide_input" by (rule wide_input_ok)
  show "is_non_overlapping_and_dense wide_input" by (rule wide_input_dense)
  show "in_box (spatialDimensionSizes wide_input) [0, 0]"
    by (simp add: in_box_def wide_input_locals)
  show "in_box (kernelSize wide_input (Fin 1)) [2, 0]"
    by (simp add: in_box_def kernelSize_def wide_input_locals windowSize_1 numeral_2_eq_2)
  show "neighbourIndexClamped wide_input (Fin 1) [0, 0] [2, 0] 0 = 1" by (rule wide_offsets)
  show "neighbourIndexClamped wide_input (Fin 1) [0, 0] [2, 0] 1 = 0" by (rule wide_offsets)
  show "neighbourOffset wide_input (Fin 1) (int32 (int 0 * batchStride wide_input)) [0, 0] [2, 0]
       = - 2147483648"
    by (simp add: wide_input_locals int32_def[of 0] wide_offsets)
  show "load wide_heap (t_data wide_input)
       (subscript wide_input
          (neighbourOffset wide_input (Fin 1) (int32 (int 0 * batchStride wide_input)) [0, 0] [2, 0]) 0)
       = Inl OutOfBounds"
    using wide_loads(2)[of "[]"]
    by (simp add: wide_input_locals int32_def[of 0] wide_offsets wide_subscripts)
  show "BilateralFilterCpu wide_heap wide_input (Fin 1) (Fin 1) = Some (Inl OutOfBounds)"
    by (rule wide_BilateralFilterCpu)
qed

subsection \<open>An axis of size 0\<close>

lemma do_while_visit:
  "length sizes = d \<Longrightarrow> \<forall>s \<in> set sizes. s \<le> 2147483647 \<Longrightarrow>
   do_while visit (Indexer_new d sizes) [] =
     Some (Inr (map (mixed_radix (radices sizes)) [0..<prod_list (radices sizes)]))"
  using do_while_Indexer_new[of sizes d visit "[]"] by (simp add: for_each_opt_visit)

lemma do_while_first_fails:
  "body (m_index ix) s = Some (Inl e) \<Longrightarrow> do_while body ix s = Some (Inl e)"
  by (subst do_while.simps) simp

lemma for_each_first_fails:
  "xs \<noteq> [] \<Longrightarrow> f (hd xs) s = Inl e \<Longrightarrow> for_each xs f s = Inl e"
  by (cases xs) simp_all

lemma for_each_opt_first_fails:
  "xs \<noteq> [] \<Longrightarrow> f (hd xs) s = Some (Inl e) \<Longrightarrow> for_each_opt xs f s = Some (Inl e)"
  by (cases xs) simp_all

lemma colorDistanceSquared_empty_buffer:
  assumes "1 \<le> channelCount input" and "t_data input < length h \<Longrightarrow> h ! t_data input = []"
  shows "colorDistanceSquared h input homeOff neighbourOff = Inl OutOfBounds"
proof -
  have ne: "[0..<nat (channelCount input)] \<noteq> []" using assms(1) by simp
  have "load h (t_data input) (subscript input homeOff (hd [0..<nat (channelCount input)]))
        = Inl OutOfBounds"
    using assms(2) by (simp add: load_def)
  then show ?thesis
    unfolding colorDistanceSquared_def by (intro for_each_first_fails[OF ne]) simp
qed

lemma BilateralFilterCpu_empty_buffer:
  assumes "3 \<le> length (t_sizes input)" and "2 \<le> length (t_strides input)"
    and "t_dtype input = Float32"
    and "1 \<le> batchCount input" and "1 \<le> channelCount input"
    and "0 \<le> windowSize spatialSigma"
    and "t_data input < length h" and "h ! t_data input = []"
  shows "BilateralFilterCpu h input spatialSigma colorSigma = Some (Inl OutOfBounds)"
proof -
  let ?h1 = "fst (zeros_like h input)"
  have d: "spatialDimensionCount input \<noteq> 0" using assms(1) by (simp add: spatialDimensionCount_def)
  have e: "?h1 ! t_data input = []"
    using assms(7,8) by (simp add: zeros_like_def nth_append)
  have kb: "\<And>batchOffset homeIndex kernelIndex acc.
     kernel_body ?h1 input spatialSigma colorSigma batchOffset homeIndex kernelIndex acc
       = Inl OutOfBounds"
    unfolding kernel_body_def totalWeight_def Let_def
    by (simp add: colorDistanceSquared_empty_buffer[OF assms(5)] e)
  have wp: "\<And>batchOffset homeIndex.
     window_pass ?h1 input spatialSigma colorSigma batchOffset homeIndex = Some (Inl OutOfBounds)"
    unfolding window_pass_def using d
    by (simp add: Indexer_ctor_def do_while_first_fails kb)
  have hb: "\<And>batchOffset homeIndex.
     home_body input (length h) spatialSigma colorSigma batchOffset homeIndex ?h1
       = Some (Inl OutOfBounds)"
    unfolding home_body_def by (simp add: wp)
  have bb: "\<And>b. batch_body input (length h) spatialSigma colorSigma b ?h1 = Some (Inl OutOfBounds)"
    unfolding batch_body_def Let_def using d
    by (simp add: Indexer_ctor_def do_while_first_fails hb)
  have ne: "[0..<nat (batchCount input)] \<noteq> []" using assms(4) by simp
  have "for_each_opt [0..<nat (batchCount input)]
          (batch_body input (length h) spatialSigma colorSigma) ?h1 = Some (Inl OutOfBounds)"
    by (rule for_each_opt_first_fails[OF ne]) (rule bb)
  then show ?thesis
    using assms(1,2,3,5,6) by (simp add: BilateralFilterCpu_def case_prod_beta)
qed




subsection \<open>The weights\<close>

lemma weight_like_round32: "0 \<le> x \<Longrightarrow> weight_like (round32 x)"
proof -
  assume "0 \<le> x"
  then have "0 \<le> rnd x" by (rule rnd_nonneg)
  moreover have "(0::real) < 2 ^ 128" by simp
  ultimately have "\<not> rnd x \<le> - (2 ^ 128)" by linarith
  with \<open>0 \<le> rnd x\<close> show ?thesis by (simp add: round32_def Let_def)
qed

lemma weight_like_fexp [simp]: "weight_like (fexp x)"
  by (cases x) (simp_all add: weight_like_round32)

lemma weight_like_fmul: "weight_like x \<Longrightarrow> weight_like y \<Longrightarrow> weight_like (fmul x y)"
  by (cases x; cases y) (auto simp: weight_like_round32)

lemma weight_like_fadd: "weight_like x \<Longrightarrow> weight_like y \<Longrightarrow> weight_like (fadd x y)"
  by (cases x; cases y) (auto simp: weight_like_round32)

lemma at_least_one_round32: "1 \<le> x \<Longrightarrow> at_least_one (round32 x)"
proof -
  assume "1 \<le> x"
  then have r: "1 \<le> rnd x" by (rule rnd_ge_1)
  moreover have "(0::real) < 2 ^ 128" by simp
  ultimately have "\<not> rnd x \<le> - (2 ^ 128)" by linarith
  with r show ?thesis by (simp add: round32_def Let_def)
qed

lemma at_least_one_fadd: "at_least_one x \<Longrightarrow> weight_like y \<Longrightarrow> at_least_one (fadd x y)"
  by (cases x; cases y) (auto simp: at_least_one_round32)

lemma at_least_one_fadd_one:
  "weight_like x \<Longrightarrow> y = Fin 1 \<or> y = NaN \<Longrightarrow> at_least_one (fadd x y)"
  by (cases x) (auto simp: at_least_one_round32)

lemma at_least_one_weight_like: "at_least_one x \<Longrightarrow> weight_like x"
  by (cases x) auto

lemma at_least_one_nonzero: "at_least_one x \<Longrightarrow> x \<noteq> Fin 0"
  by (cases x) auto

lemma foldl_fmul_weight_like:
  "weight_like w \<Longrightarrow> \<forall>i \<in> set xs. weight_like (g i) \<Longrightarrow>
   weight_like (foldl (\<lambda>w i. fmul w (g i)) w xs)"
  by (induction xs arbitrary: w) (simp_all add: weight_like_fmul)

lemma gaussianKernel_weight_like:
  "i < nat (windowSize spatialSigma) \<Longrightarrow> weight_like (gaussianKernel spatialSigma ! i)"
  by (simp add: gaussianKernel_nth)

lemma weight_weight_like:
  assumes "in_box (kernelSize input spatialSigma) kernelIndex"
  shows "weight_like (weight h input spatialSigma colorSigma b homeIndex kernelIndex)"
  unfolding weight_def
proof (intro weight_like_fmul foldl_fmul_weight_like ballI)
  show "weight_like (Fin 1)" by simp
next
  fix i assume "i \<in> set [0..<spatialDimensionCount input]"
  then have i: "i < length (kernelSize input spatialSigma)" by simp
  from in_box_nth[OF assms this] i
  have "0 \<le> kernelIndex ! i" "kernelIndex ! i < windowSize spatialSigma"
    by (simp_all add: kernelSize_def)
  then have "nat (kernelIndex ! i) < nat (windowSize spatialSigma)" by simp
  then show "weight_like (gaussianKernel spatialSigma ! nat (kernelIndex ! i))"
    by (rule gaussianKernel_weight_like)
qed simp

text \<open>The window coordinate of the centre: \<open>halfWindowSize\<close> on every axis.\<close>

lemma int32_diff_left: "int32 (int32 a - b) = int32 (a - b)"
proof -
  have e: "int32 a - b + 2147483648 = (a + 2147483648) mod 4294967296 - b" by (simp add: int32_def)
  have "(int32 a - b + 2147483648) mod 4294967296
        = ((a + 2147483648) mod 4294967296 - b) mod 4294967296" by (simp only: e)
  also have "\<dots> = (a + 2147483648 - b) mod 4294967296" by (rule mod_diff_left_eq)
  also have "a + 2147483648 - b = a - b + 2147483648" by simp
  finally have "(int32 a - b + 2147483648) mod 4294967296 = (a - b + 2147483648) mod 4294967296" .
  then show ?thesis by (simp only: int32_def[of "int32 a - b"] int32_def[of "a - b"])
qed

lemma centre_in_box:
  "1 \<le> windowSize spatialSigma \<Longrightarrow>
   in_box (kernelSize input spatialSigma)
     (replicate (spatialDimensionCount input) (halfWindowSize spatialSigma))"
  using halfWindowSize_range[of spatialSigma]
  by (simp add: in_box_def kernelSize_def list_all2_conv_all_nth)

lemma neighbour_centre:
  assumes "tensor_ok h input" and "int_ranged input"
    and "in_box (spatialDimensionSizes input) homeIndex" and "i < spatialDimensionCount input"
  shows "neighbourIndexClamped input spatialSigma homeIndex
           (replicate (spatialDimensionCount input) (halfWindowSize spatialSigma)) i = homeIndex ! i"
proof -
  from in_box_nth[OF assms(3)] assms(4)
  have hx: "0 \<le> homeIndex ! i" "homeIndex ! i < spatialDimensionSizes input ! i" by simp_all
  have le: "spatialDimensionSizes input ! i \<le> 2147483647" using assms(2,4) by (rule int_ranged_sizes)
  have "int32 (int32 (homeIndex ! i + halfWindowSize spatialSigma) - halfWindowSize spatialSigma)
        = int32 (homeIndex ! i)" by (simp add: int32_diff_left)
  also have "\<dots> = homeIndex ! i" using hx le by (intro int32_id) simp_all
  finally have n: "neighbourIndex spatialSigma homeIndex
      (replicate (spatialDimensionCount input) (halfWindowSize spatialSigma)) i = homeIndex ! i"
    using assms(4) by (simp add: neighbourIndex_def)
  show ?thesis
    using hx by (simp add: neighbourIndexClamped_def n clamp_limit[OF assms(1,2,4)])
qed

lemma neighbourOffset_centre:
  assumes "tensor_ok h input" and "int_ranged input"
    and "in_box (spatialDimensionSizes input) homeIndex"
  shows "neighbourOffset input spatialSigma off homeIndex
           (replicate (spatialDimensionCount input) (halfWindowSize spatialSigma)) =
         homeOffset input off homeIndex"
  unfolding neighbourOffset_def homeOffset_def
  by (rule foldl_cong) (simp_all add: neighbour_centre[OF assms])

lemma neighbour_value_centre:
  assumes "tensor_ok h input" and "int_ranged input"
    and "in_box (spatialDimensionSizes input) homeIndex"
  shows "neighbour_value h input spatialSigma b homeIndex
           (replicate (spatialDimensionCount input) (halfWindowSize spatialSigma)) c =
         home_value h input b homeIndex c"
  by (simp add: neighbour_value_def home_value_def neighbourOffset_centre[OF assms])

lemma fsub_same: "fsub x x = Fin 0 \<or> fsub x x = NaN"
  by (cases x) (simp_all add: fsub_def)

lemma fsub_same_Fin: "fsub (Fin a) (Fin a) = Fin 0"
  by (simp add: fsub_def)

lemma square_zero_or_nan: "d = Fin 0 \<or> d = NaN \<Longrightarrow> fmul d d = Fin 0 \<or> fmul d d = NaN"
  by auto

lemma foldl_fadd_zero_or_nan:
  "acc = Fin 0 \<or> acc = NaN \<Longrightarrow> \<forall>c \<in> set cs. t c = Fin 0 \<or> t c = NaN \<Longrightarrow>
   foldl (\<lambda>acc c. fadd acc (t c)) acc cs = Fin 0 \<or> foldl (\<lambda>acc c. fadd acc (t c)) acc cs = NaN"
proof (induction cs arbitrary: acc)
  case Nil
  then show ?case by simp
next
  case (Cons c cs)
  have "fadd acc (t c) = Fin 0 \<or> fadd acc (t c) = NaN" using Cons.prems by auto
  then show ?case using Cons.prems(2) by (simp add: Cons.IH)
qed

lemma foldl_fadd_zero:
  "\<forall>c \<in> set cs. t c = Fin 0 \<Longrightarrow> foldl (\<lambda>acc c. fadd acc (t c)) (Fin 0) cs = Fin 0"
  by (induction cs) simp_all

lemma fexp_zero [simp]: "fexp (Fin 0) = Fin 1"
  by simp

lemma fexp_scaled_zero_or_nan:
  "x = Fin 0 \<or> x = NaN \<Longrightarrow> fexp (fmul x e) = Fin 1 \<or> fexp (fmul x e) = NaN"
  by (cases e) auto

lemma fexp_scaled_infinite:
  "x = Fin 0 \<or> x = NaN \<Longrightarrow> e = NInf \<or> e = PInf \<or> e = NaN \<Longrightarrow> fexp (fmul x e) = NaN"
  by auto

lemma foldl_fmul_one_or_nan:
  "w = Fin 1 \<or> w = NaN \<Longrightarrow> \<forall>i \<in> set xs. g i = Fin 1 \<or> g i = NaN \<Longrightarrow>
   foldl (\<lambda>w i. fmul w (g i)) w xs = Fin 1 \<or> foldl (\<lambda>w i. fmul w (g i)) w xs = NaN"
proof (induction xs arbitrary: w)
  case Nil
  then show ?case by simp
next
  case (Cons i xs)
  have "fmul w (g i) = Fin 1 \<or> fmul w (g i) = NaN" using Cons.prems by auto
  then show ?case using Cons.prems(2) by (simp add: Cons.IH)
qed

lemma foldl_fmul_one:
  "\<forall>i \<in> set xs. g i = Fin 1 \<Longrightarrow> foldl (\<lambda>w i. fmul w (g i)) (Fin 1) xs = Fin 1"
  by (induction xs) simp_all

lemma gaussianKernel_centre:
  assumes "1 \<le> windowSize spatialSigma"
  shows "gaussianKernel spatialSigma ! nat (halfWindowSize spatialSigma) =
           fexp (fmul (Fin 0) (spatialExpConstant spatialSigma))"
proof -
  from halfWindowSize_range[OF assms]
  have h: "0 \<le> halfWindowSize spatialSigma" "halfWindowSize spatialSigma < windowSize spatialSigma"
    by simp_all
  then have "nat (halfWindowSize spatialSigma) < nat (windowSize spatialSigma)" by simp
  from gaussianKernel_nth[OF this] h(1) show ?thesis by (simp add: int32_def)
qed

lemma weight_centre:
  assumes "tensor_ok h input" and "int_ranged input"
    and "in_box (spatialDimensionSizes input) homeIndex"
    and "1 \<le> windowSize spatialSigma"
  shows "weight h input spatialSigma colorSigma b homeIndex
           (replicate (spatialDimensionCount input) (halfWindowSize spatialSigma)) = Fin 1
       \<or> weight h input spatialSigma colorSigma b homeIndex
           (replicate (spatialDimensionCount input) (halfWindowSize spatialSigma)) = NaN"
proof -
  let ?kc = "replicate (spatialDimensionCount input) (halfWindowSize spatialSigma)"
  let ?sw = "foldl (\<lambda>w i. fmul w (gaussianKernel spatialSigma ! nat (?kc ! i))) (Fin 1)
               [0..<spatialDimensionCount input]"
  let ?t = "\<lambda>c. fmul (fsub (home_value h input b homeIndex c) (home_value h input b homeIndex c))
                     (fsub (home_value h input b homeIndex c) (home_value h input b homeIndex c))"
  let ?cds = "foldl (\<lambda>acc c. fadd acc (?t c)) (Fin 0) [0..<nat (channelCount input)]"
  have g: "\<forall>i \<in> set [0..<spatialDimensionCount input].
             gaussianKernel spatialSigma ! nat (?kc ! i) = Fin 1
             \<or> gaussianKernel spatialSigma ! nat (?kc ! i) = NaN"
    using fexp_scaled_zero_or_nan[of "Fin 0" "spatialExpConstant spatialSigma"]
    by (simp add: gaussianKernel_centre[OF assms(4)])
  have sw: "?sw = Fin 1 \<or> ?sw = NaN"
    by (rule foldl_fmul_one_or_nan[OF _ g]) simp
  have t: "\<forall>c \<in> set [0..<nat (channelCount input)]. ?t c = Fin 0 \<or> ?t c = NaN"
    using fsub_same square_zero_or_nan by blast
  have cds: "?cds = Fin 0 \<or> ?cds = NaN"
    by (rule foldl_fadd_zero_or_nan[OF _ t]) simp
  from fexp_scaled_zero_or_nan[OF cds, of "colorExpConstant colorSigma"]
  have cw: "fexp (fmul ?cds (colorExpConstant colorSigma)) = Fin 1
            \<or> fexp (fmul ?cds (colorExpConstant colorSigma)) = NaN" .
  have "weight h input spatialSigma colorSigma b homeIndex ?kc =
        fmul ?sw (fexp (fmul ?cds (colorExpConstant colorSigma)))"
    by (simp add: weight_def neighbour_value_centre[OF assms(1-3)])
  with sw cw show ?thesis by auto
qed

lemma weight_centre_nan:
  assumes "tensor_ok h input" and "int_ranged input"
    and "in_box (spatialDimensionSizes input) homeIndex"
    and "colorExpConstant colorSigma = NInf \<or> colorExpConstant colorSigma = PInf
         \<or> colorExpConstant colorSigma = NaN"
  shows "weight h input spatialSigma colorSigma b homeIndex
           (replicate (spatialDimensionCount input) (halfWindowSize spatialSigma)) = NaN"
proof -
  let ?kc = "replicate (spatialDimensionCount input) (halfWindowSize spatialSigma)"
  let ?t = "\<lambda>c. fmul (fsub (home_value h input b homeIndex c) (home_value h input b homeIndex c))
                     (fsub (home_value h input b homeIndex c) (home_value h input b homeIndex c))"
  let ?cds = "foldl (\<lambda>acc c. fadd acc (?t c)) (Fin 0) [0..<nat (channelCount input)]"
  have t: "\<forall>c \<in> set [0..<nat (channelCount input)]. ?t c = Fin 0 \<or> ?t c = NaN"
    using fsub_same square_zero_or_nan by blast
  have cds: "?cds = Fin 0 \<or> ?cds = NaN"
    by (rule foldl_fadd_zero_or_nan[OF _ t]) simp
  from fexp_scaled_infinite[OF cds assms(4)]
  have cw: "fexp (fmul ?cds (colorExpConstant colorSigma)) = NaN" .
  show ?thesis
    by (simp add: weight_def neighbour_value_centre[OF assms(1-3)] cw)
qed

lemma snd_window_step:
  "snd (window_step h input spatialSigma colorSigma b homeIndex acc k) =
   fadd (snd acc) (weight h input spatialSigma colorSigma b homeIndex k)"
  by (simp add: window_step_def)

lemma foldl_window_step_inv:
  assumes "P (snd acc)"
    and "\<And>x k. k \<in> set ks \<Longrightarrow> P x \<Longrightarrow>
           P (fadd x (weight h input spatialSigma colorSigma b homeIndex k))"
  shows "P (snd (foldl (window_step h input spatialSigma colorSigma b homeIndex) acc ks))"
  using assms
proof (induction ks arbitrary: acc)
  case Nil
  then show ?case by simp
next
  case (Cons k ks)
  have "P (snd (window_step h input spatialSigma colorSigma b homeIndex acc k))"
    using Cons.prems by (simp add: snd_window_step)
  then show ?case using Cons.prems(2) by (simp add: Cons.IH)
qed

lemma centre_in_window:
  assumes "1 \<le> windowSize spatialSigma"
  shows "replicate (spatialDimensionCount input) (halfWindowSize spatialSigma)
         \<in> set (window input spatialSigma)"
  using centre_in_box[OF assms] by (simp add: set_window[OF assms])

lemma window_sums_at_least_one:
  assumes "tensor_ok h input" and "int_ranged input"
    and "in_box (spatialDimensionSizes input) homeIndex"
    and "1 \<le> windowSize spatialSigma"
  shows "at_least_one (snd (window_sums h input spatialSigma colorSigma b homeIndex))"
proof -
  let ?kc = "replicate (spatialDimensionCount input) (halfWindowSize spatialSigma)"
  let ?step = "window_step h input spatialSigma colorSigma b homeIndex"
  let ?z = "(replicate (nat (channelCount input)) (Fin 0), Fin 0)"
  from centre_in_window[OF assms(4)] obtain pre post where
    w: "window input spatialSigma = pre @ ?kc # post" by (meson split_list)
  have wl: "\<And>k. k \<in> set (window input spatialSigma) \<Longrightarrow>
              weight_like (weight h input spatialSigma colorSigma b homeIndex k)"
    by (rule weight_weight_like) (simp add: set_window[OF assms(4)])
  have 1: "weight_like (snd (foldl ?step ?z pre))"
    by (rule foldl_window_step_inv[where P = weight_like]) (simp_all add: weight_like_fadd wl w)
  have 2: "at_least_one (snd (?step (foldl ?step ?z pre) ?kc))"
    unfolding snd_window_step
    by (rule at_least_one_fadd_one[OF 1 weight_centre[OF assms]])
  have 3: "at_least_one (snd (foldl ?step (?step (foldl ?step ?z pre) ?kc) post))"
    by (rule foldl_window_step_inv[where P = at_least_one, OF 2]) (simp add: at_least_one_fadd wl w)
  show ?thesis unfolding window_sums_def w using 3 by simp
qed

lemma window_sums_nan:
  assumes "tensor_ok h input" and "int_ranged input"
    and "in_box (spatialDimensionSizes input) homeIndex"
    and "1 \<le> windowSize spatialSigma"
    and "colorExpConstant colorSigma = NInf \<or> colorExpConstant colorSigma = PInf
         \<or> colorExpConstant colorSigma = NaN"
  shows "snd (window_sums h input spatialSigma colorSigma b homeIndex) = NaN"
proof -
  let ?kc = "replicate (spatialDimensionCount input) (halfWindowSize spatialSigma)"
  let ?step = "window_step h input spatialSigma colorSigma b homeIndex"
  let ?z = "(replicate (nat (channelCount input)) (Fin 0), Fin 0)"
  from centre_in_window[OF assms(4)] obtain pre post where
    w: "window input spatialSigma = pre @ ?kc # post" by (meson split_list)
  have 2: "snd (?step (foldl ?step ?z pre) ?kc) = NaN"
    unfolding snd_window_step by (simp add: weight_centre_nan[OF assms(1,2,3,5)])
  have 3: "snd (foldl ?step (?step (foldl ?step ?z pre) ?kc) post) = NaN"
    by (rule foldl_window_step_inv[where P = "\<lambda>x. x = NaN", OF 2]) simp
  show ?thesis unfolding window_sums_def w using 3 by simp
qed

subsection \<open>The sum of the weights\<close>

lemma example_home: "in_box (spatialDimensionSizes example_input) [0]"
  by (simp add: in_box_def example_input_locals)

lemma tiny_sigma: "is_f32 (1 / 1208925819614629174706176)"
  using rnd_exact[of "1 / 1208925819614629174706176" 1 "- 80"] by (simp add: is_f32_def pow2_def)

lemma colorExpConstant_tiny: "colorExpConstant (Fin (1 / 1208925819614629174706176)) = NInf"
proof -
  have "rnd (2 * (1 / 1208925819614629174706176)) = 2 * (1 / 1208925819614629174706176)"
    using rnd_exact[of "2 * (1 / 1208925819614629174706176)" 1 "- 79"] by (simp add: pow2_def)
  then have 1: "fmul (Fin 2) (Fin (1 / 1208925819614629174706176)) = Fin (1 / 604462909807314587353088)"
    by (simp add: round32_def)
  have "rnd (1 / 604462909807314587353088 * (1 / 1208925819614629174706176)) = 0"
    by (rule rnd_small) (simp add: pow2_def)
  then have 2: "fmul (Fin (1 / 604462909807314587353088)) (Fin (1 / 1208925819614629174706176)) = Fin 0"
    by (simp add: round32_def)
  show ?thesis by (simp only: colorExpConstant_def of_int32_numerals 1 2) simp
qed




end
